theory Spec2Isabelle
  imports Main "HOL-Library.Word" "HOL-Library.Signed_Division" "HOL-Library.Multiset"
    "HOL-Library.Sublist"
begin

section \<open>Go primitives used by the gateway's multi-tenant code\<close>

text \<open>
  Go's \<open>int64\<close> is a 64-bit two's-complement word: \<open>+\<close> and \<open>-\<close> wrap around, the
  comparisons are the signed ones (\<open><s\<close>, \<open>\<le>s\<close>), and \<open>/\<close> and \<open>%\<close> truncate towards
  zero.  Go's \<open>int\<close> has the same width on the 64-bit platforms the gateway is built for,
  and is modelled by the same type.  Division by zero panics; the callers below test the
  divisor before they use \<open>go_quo\<close> and \<open>go_rem\<close>.
\<close>

type_synonym int64 = "64 word"

type_synonym byte = "8 word"

definition go_quo :: "int64 \<Rightarrow> int64 \<Rightarrow> int64" where
  "go_quo a b = word_of_int (sint a sdiv sint b)"

definition go_rem :: "int64 \<Rightarrow> int64 \<Rightarrow> int64" where
  "go_rem a b = word_of_int (sint a smod sint b)"

text \<open>
  Error values.  The five sentinel errors of package \<open>auth\<close> are constructors of their
  own; \<open>ErrorsNew\<close> is \<open>errors.New\<close>, \<open>Errorf\<close> is \<open>fmt.Errorf\<close> with a formatted
  prefix and a wrapped cause (\<open>%w\<close>), \<open>ErrorfPlain\<close> is \<open>fmt.Errorf\<close> without a cause,
  and \<open>ExternalError\<close> stands for an error handed back by the operating system or by a
  package outside this repository.
\<close>

datatype go_error =
    ErrUserStorageNotFound
  | ErrQuotaExceeded
  | ErrMountFailed
  | ErrUnmountFailed
  | ErrInvalidBackendType
  | ErrorsNew string
  | ErrorfPlain string
  | Errorf string go_error
  | ExternalError string

datatype go_panic =
  DivideByZero | MakeSliceLenOutOfRange | MakeSliceCapOutOfRange | NilDereference

text \<open>A call either returns a value or panics.\<close>

datatype 'a outcome = Returns 'a | Panics go_panic

text \<open>The values a \<open>map[string]interface{}\<close> read from JSON can hold.\<close>

datatype go_value = VString string | VNumber int | VBool bool | VList "go_value list" | VNull


section \<open>Library functions the code calls\<close>

text \<open>
  \<open>strings.Join\<close>, \<open>strings.HasPrefix\<close> and \<open>strings.Split\<close> on a one-character
  separator.
\<close>

fun strings_Join :: "string list \<Rightarrow> string \<Rightarrow> string" where
  "strings_Join [] sep = []"
| "strings_Join [x] sep = x"
| "strings_Join (x # y # ys) sep = x @ sep @ strings_Join (y # ys) sep"

fun strings_HasPrefix :: "string \<Rightarrow> string \<Rightarrow> bool" where
  "strings_HasPrefix s [] = True"
| "strings_HasPrefix [] (p # ps) = False"
| "strings_HasPrefix (c # cs) (p # ps) = (c = p \<and> strings_HasPrefix cs ps)"

fun splitOn :: "char \<Rightarrow> string \<Rightarrow> string list" where
  "splitOn sep [] = [[]]"
| "splitOn sep (c # cs) =
     (if c = sep then [] # splitOn sep cs
      else (case splitOn sep cs of
              [] \<Rightarrow> [[c]]
            | w # ws \<Rightarrow> (c # w) # ws))"

text \<open>
  Package \<open>path/filepath\<close> of the Go standard library, Unix build (separator \<open>/\<close>, no
  volume names).  The library is not part of the repository; the functions below follow
  its documented behaviour, element by element rather than byte by byte.

  \<open>filepath.Clean\<close>: empty elements and \<open>.\<close> elements are dropped; \<open>..\<close> removes the
  element before it, is dropped at the root of a rooted path, and is kept at the front of
  a relative path; an empty result is \<open>.\<close>.  The state of the scan is the list of
  elements written and the number of leading \<open>..\<close> elements that can no longer be
  removed.
\<close>

definition clean_step :: "bool \<Rightarrow> string list \<times> nat \<Rightarrow> string \<Rightarrow> string list \<times> nat" where
  "clean_step rooted st e =
     (case st of (out, dotdot) \<Rightarrow>
        if e = [] \<or> e = ''.'' then (out, dotdot)
        else if e = ''..'' then
          (if dotdot < length out then (butlast out, dotdot)
           else if \<not> rooted then (out @ [''..''], dotdot + 1)
           else (out, dotdot))
        else (out @ [e], dotdot))"

definition filepath_Clean :: "string \<Rightarrow> string" where
  "filepath_Clean path =
     (if path = [] then ''.''
      else
        let rooted = (hd path = CHR ''/'');
            out = fst (foldl (clean_step rooted) ([], 0) (splitOn (CHR ''/'') path));
            body = strings_Join out ''/''
        in if rooted then CHR ''/'' # body
           else if body = [] then ''.''
           else body)"

text \<open>
  \<open>filepath.Join\<close>: leading empty elements are skipped, the rest is joined with the
  separator and cleaned; no non-empty element gives the empty string.
\<close>

definition filepath_Join :: "string list \<Rightarrow> string" where
  "filepath_Join elem =
     (case dropWhile (\<lambda>e. e = []) elem of
        [] \<Rightarrow> []
      | e # es \<Rightarrow> filepath_Clean (strings_Join (e # es) ''/''))"

definition filepath_IsAbs :: "string \<Rightarrow> bool" where
  "filepath_IsAbs path = strings_HasPrefix path ''/''"

text \<open>\<open>filepath.HasPrefix\<close> (deprecated in the library) is the plain string-prefix test.\<close>

definition filepath_HasPrefix :: "string \<Rightarrow> string \<Rightarrow> bool" where
  "filepath_HasPrefix p pfx = strings_HasPrefix p pfx"

text \<open>
  \<open>filepath.Rel\<close>: both paths are cleaned; equal paths give \<open>.\<close>; a rooted and an
  unrooted path cannot be related; otherwise the common leading elements are removed, each
  element left in the base becomes \<open>..\<close>, and the elements left in the target follow.
  A base whose first unmatched element is \<open>..\<close> cannot be related either.
\<close>

definition path_elements :: "string \<Rightarrow> string list" where
  "path_elements p = filter (\<lambda>e. e \<noteq> [] \<and> e \<noteq> ''.'') (splitOn (CHR ''/'') p)"

fun strip_common :: "string list \<Rightarrow> string list \<Rightarrow> string list \<times> string list" where
  "strip_common (b # bs) (t # ts) = (if b = t then strip_common bs ts else (b # bs, t # ts))"
| "strip_common bs ts = (bs, ts)"

definition filepath_Rel :: "string \<Rightarrow> string \<Rightarrow> go_error + string" where
  "filepath_Rel basepath targpath =
     (let base = filepath_Clean basepath;
          targ = filepath_Clean targpath
      in if targ = base then Inr ''.''
         else
           let base = (if base = ''.'' then [] else base);
               baseSlashed = strings_HasPrefix base ''/'';
               targSlashed = strings_HasPrefix targ ''/'';
               cannot = ErrorsNew (''Rel: can't make '' @ targpath @ '' relative to '' @ basepath)
           in if baseSlashed \<noteq> targSlashed then Inl cannot
              else
                (case strip_common (path_elements base) (path_elements targ) of
                   (b # bs, ts) \<Rightarrow>
                     if b = ''..'' then Inl cannot
                     else Inr (strings_Join (replicate (length (b # bs)) ''..'' @ ts) ''/'')
                 | ([], ts) \<Rightarrow> Inr (strings_Join ts ''/'')))"


section \<open>auth/multi\_tenant.go: tenant records, quota guard, access validation\<close>

record MultiTenantConfig =
  Enabled :: bool
  DefaultBackendType :: string
  BasePath :: string
  DefaultQuota :: int64

record UserStorageConfig =
  BackendType :: string
  BackendConfig :: "string \<rightharpoonup> go_value"
  StoragePath :: string
  Quota :: int64
  UsedSpace :: int64
  Mounted :: bool
  Metadata :: "string \<rightharpoonup> string"

text \<open>
  \<open>DefaultMultiTenantManager\<close>.  The map holds pointers in the source; nothing in the
  modelled code keeps a second reference to a stored record, so the records are stored by
  value and an update through the pointer is an update of the map entry.  The backend
  factory is used by \<open>MountUserStorage\<close> only and is left out.
\<close>

record DefaultMultiTenantManager =
  mt_config :: MultiTenantConfig
  mt_userConfigs :: "string \<rightharpoonup> UserStorageConfig"

definition GetUserStorageConfig :: "DefaultMultiTenantManager \<Rightarrow> string \<Rightarrow> go_error + UserStorageConfig" where
  "GetUserStorageConfig m userID =
     (case mt_userConfigs m userID of
        None \<Rightarrow> Inl ErrUserStorageNotFound
      | Some cfg \<Rightarrow> Inr cfg)"

definition validBackends :: "string list" where
  "validBackends = [''posix'', ''cephfs'', ''nfs'', ''lustre'', ''minio'', ''rustfs'']"

text \<open>
  \<open>SetUserStorageConfig\<close>; the argument is a pointer, \<open>None\<close> is \<open>nil\<close>.  The result is
  the error (\<open>None\<close> is \<open>nil\<close>) and the manager after the call.
\<close>

definition SetUserStorageConfig ::
  "DefaultMultiTenantManager \<Rightarrow> string \<Rightarrow> UserStorageConfig option
     \<Rightarrow> go_error option \<times> DefaultMultiTenantManager"
where
  "SetUserStorageConfig m userID cfg =
     (case cfg of
        None \<Rightarrow> (Some (ErrorsNew ''config cannot be nil''), m)
      | Some c \<Rightarrow>
          let valid = list_ex (\<lambda>backend. BackendType c = backend) validBackends
          in if \<not> valid then (Some ErrInvalidBackendType, m)
             else (None, m \<lparr> mt_userConfigs := (mt_userConfigs m)(userID \<mapsto> c) \<rparr>))"

definition GetUserBasePath :: "DefaultMultiTenantManager \<Rightarrow> string \<Rightarrow> go_error + string" where
  "GetUserBasePath m userID =
     (if \<not> Enabled (mt_config m) then Inl (ErrorsNew ''multi-tenant mode not enabled'')
      else Inr (filepath_Join [BasePath (mt_config m), ''users'', userID]))"

definition CheckQuota :: "DefaultMultiTenantManager \<Rightarrow> string \<Rightarrow> int64 \<Rightarrow> go_error option" where
  "CheckQuota m userID additionalSize =
     (case GetUserStorageConfig m userID of
        Inl err \<Rightarrow> Some err
      | Inr cfg \<Rightarrow>
          if Quota cfg = 0 then None
          else if Quota cfg <s UsedSpace cfg + additionalSize then Some ErrQuotaExceeded
          else None)"

definition UpdateUsedSpace ::
  "DefaultMultiTenantManager \<Rightarrow> string \<Rightarrow> int64 \<Rightarrow> go_error option \<times> DefaultMultiTenantManager"
where
  "UpdateUsedSpace m userID delta =
     (case GetUserStorageConfig m userID of
        Inl err \<Rightarrow> (Some err, m)
      | Inr cfg \<Rightarrow>
          let cfg = cfg \<lparr> UsedSpace := UsedSpace cfg + delta \<rparr>;
              cfg = (if UsedSpace cfg <s 0 then cfg \<lparr> UsedSpace := 0 \<rparr> else cfg)
          in (None, m \<lparr> mt_userConfigs := (mt_userConfigs m)(userID \<mapsto> cfg) \<rparr>))"

text \<open>
  \<open>IsTenantIsolationEnabled\<close> asserts that the manager is a
  \<open>*DefaultMultiTenantManager\<close>, the one implementation of the interface in the
  repository, and reads its \<open>Enabled\<close> flag.
\<close>

definition IsTenantIsolationEnabled :: "DefaultMultiTenantManager \<Rightarrow> bool" where
  "IsTenantIsolationEnabled manager = Enabled (mt_config manager)"

definition isSubPath :: "string \<Rightarrow> string \<Rightarrow> bool" where
  "isSubPath basePath path =
     (case filepath_Rel basePath path of
        Inl err \<Rightarrow> False
      | Inr relPath \<Rightarrow> \<not> filepath_IsAbs relPath \<and> \<not> filepath_HasPrefix relPath ''..'')"

definition ValidateUserAccess :: "string \<Rightarrow> string \<Rightarrow> DefaultMultiTenantManager \<Rightarrow> go_error option" where
  "ValidateUserAccess userID resourcePath manager =
     (if \<not> IsTenantIsolationEnabled manager then None
      else
        (case GetUserBasePath manager userID of
           Inl err \<Rightarrow> Some err
         | Inr userBasePath \<Rightarrow>
             if \<not> isSubPath userBasePath resourcePath
             then Some (ErrorsNew ''access denied: resource outside user namespace'')
             else None))"

text \<open>
  Lexical containment, the reading of ``descendant'' that access validation is measured
  against: after cleaning, both paths are rooted or both are not, and the elements of the
  base are a prefix of the elements of the resource.
\<close>

definition lexical_descendant :: "string \<Rightarrow> string \<Rightarrow> bool" where
  "lexical_descendant basePath path =
     (let base = filepath_Clean basePath; targ = filepath_Clean path
      in strings_HasPrefix base ''/'' = strings_HasPrefix targ ''/''
         \<and> prefix (path_elements base) (path_elements targ))"

text \<open>A manager with isolation enabled and one tenant whose quota is 100 bytes, 90 of them used.\<close>

definition quota_example :: DefaultMultiTenantManager where
  "quota_example =
     \<lparr> mt_config = \<lparr> Enabled = True, DefaultBackendType = ''posix'', BasePath = ''/data'',
                      DefaultQuota = 0 \<rparr>,
       mt_userConfigs = [''alice'' \<mapsto>
         \<lparr> BackendType = ''posix'', BackendConfig = Map.empty,
           StoragePath = ''/data/users/alice'', Quota = 100, UsedSpace = 90,
           Mounted = False, Metadata = Map.empty \<rparr>] \<rparr>"


section \<open>backend/lustre\_enhanced.go: the stripe planner\<close>

record LustreConfig =
  MGSNodes :: "string list"
  FileSystem :: string
  lc_StripeCount :: int64
  lc_StripeSize :: int64
  lc_Options :: "string list"

record LustreStripeInfo =
  StripeCount :: int64
  StripeSize :: int64
  StripeIndex :: int64
  OSTs :: "int64 list"

text \<open>
  \<open>calculateOptimalStriping\<close>: the stripe info starts from the configured count and size
  with index \<open>-1\<close>, the count is then overwritten by the size tier, and finally capped by
  the configured count when that is positive.
\<close>

definition calculateOptimalStriping :: "LustreConfig \<Rightarrow> int64 \<Rightarrow> LustreStripeInfo" where
  "calculateOptimalStriping lustreConfig sz =
     (let stripeInfo = \<lparr> StripeCount = lc_StripeCount lustreConfig,
                          StripeSize = lc_StripeSize lustreConfig,
                          StripeIndex = - 1,
                          OSTs = [] \<rparr>;
          stripeInfo =
            (if sz <s 1 * 1024 * 1024 then stripeInfo \<lparr> StripeCount := 1 \<rparr>
             else if sz <s 100 * 1024 * 1024 then stripeInfo \<lparr> StripeCount := 2 \<rparr>
             else if sz <s 1 * 1024 * 1024 * 1024 then stripeInfo \<lparr> StripeCount := 4 \<rparr>
             else stripeInfo \<lparr> StripeCount := 8 \<rparr>)
      in if 0 <s lc_StripeCount lustreConfig
            \<and> lc_StripeCount lustreConfig <s StripeCount stripeInfo
         then stripeInfo \<lparr> StripeCount := lc_StripeCount lustreConfig \<rparr>
         else stripeInfo)"

text \<open>The tier table as the specification words it, on mathematical integers.\<close>

definition spec_tier :: "int \<Rightarrow> int" where
  "spec_tier n =
     (if n < 1048576 then 1
      else if n < 104857600 then 2
      else if n < 1073741824 then 4
      else 8)"

definition spec_capped :: "int \<Rightarrow> int \<Rightarrow> int" where
  "spec_capped configuredMaxStripes n =
     (if configuredMaxStripes > 0 then min configuredMaxStripes n else n)"


text \<open>
  \<open>calculateStripeChunks\<close>.  The \<open>for remaining > 0\<close> loop is the recursion
  \<open>stripeChunksLoop\<close> over (currentOffset, remaining, chunks); a result of \<open>None\<close>
  stands for a loop that never ends.  \<open>/\<close> and \<open>%\<close> panic on a zero divisor, which is
  reached only once the loop body runs.  The conversions \<open>int64(stripeInfo.StripeCount)\<close>
  and \<open>int(stripeIndex)\<close> keep the value.
\<close>

record StripeChunk =
  Offset :: int64
  Size :: int64
  Stripe :: int64

partial_function (option) stripeChunksLoop ::
  "int64 \<Rightarrow> int64 \<Rightarrow> int64 \<Rightarrow> int64 \<Rightarrow> StripeChunk list \<Rightarrow> StripeChunk list outcome option"
where
  "stripeChunksLoop stripeSize stripeCount currentOffset remaining chunks =
     (if 0 <s remaining then
        (if stripeSize = 0 \<or> stripeCount = 0 then Some (Panics DivideByZero)
         else
           let stripeIndex = go_rem (go_quo currentOffset stripeSize) stripeCount;
               stripeOffset = go_rem currentOffset stripeSize;
               chunkSize = stripeSize - stripeOffset;
               chunkSize = (if remaining <s chunkSize then remaining else chunkSize)
           in stripeChunksLoop stripeSize stripeCount
                (currentOffset + chunkSize) (remaining - chunkSize)
                (chunks @ [\<lparr> Offset = currentOffset, Size = chunkSize, Stripe = stripeIndex \<rparr>]))
      else Some (Returns chunks))"


definition calculateStripeChunks ::
  "int64 \<Rightarrow> int64 \<Rightarrow> LustreStripeInfo \<Rightarrow> StripeChunk list outcome option"
where
  "calculateStripeChunks offset sz stripeInfo =
     stripeChunksLoop (StripeSize stripeInfo) (StripeCount stripeInfo) offset sz []"


text \<open>
  What the decomposition is required to satisfy, on mathematical integers: the chunks
  follow one another from a start position, a chunk ends at \<open>chunk_end\<close>, a chunk stays
  inside one stripe, and its stripe index is the stripe number modulo the stripe count.
\<close>

definition chunk_end :: "StripeChunk \<Rightarrow> int" where
  "chunk_end c = sint (Offset c) + sint (Size c)"

fun contiguous_from :: "int \<Rightarrow> StripeChunk list \<Rightarrow> bool" where
  "contiguous_from p [] = True"
| "contiguous_from p (c # cs) = (sint (Offset c) = p \<and> contiguous_from (p + sint (Size c)) cs)"

definition total_size :: "StripeChunk list \<Rightarrow> int" where
  "total_size cs = sum_list (map (\<lambda>c. sint (Size c)) cs)"

definition within_one_stripe :: "int \<Rightarrow> StripeChunk \<Rightarrow> bool" where
  "within_one_stripe stripeSize c =
     (sint (Offset c) div stripeSize = (sint (Offset c) + sint (Size c) - 1) div stripeSize)"

definition stripe_index_ok :: "int \<Rightarrow> int \<Rightarrow> StripeChunk \<Rightarrow> bool" where
  "stripe_index_ok stripeSize stripeCount c =
     (sint (Stripe c) = (sint (Offset c) div stripeSize) mod stripeCount)"


text \<open>
  An open file, as \<open>parallelReadStripes\<close> sees it through \<open>(*os.File).ReadAt\<close> of the
  standard library: \<open>ReadAt(b, off)\<close> fills \<open>b\<close> from byte \<open>off\<close> on and returns an
  error whenever it read fewer than \<open>len(b)\<close> bytes, \<open>io.EOF\<close> at the end of the file; a
  negative offset is an error.  \<open>read_fault\<close> lets a read fail for a reason of the
  operating system after some bytes.  The result is the buffer after the call, the number
  of bytes read, and the error.  Allocation of a buffer of non-negative length is taken to
  succeed.
\<close>

definition io_EOF :: go_error where
  "io_EOF = ExternalError ''EOF''"

definition negative_offset :: go_error where
  "negative_offset = ExternalError ''negative offset''"

record os_file =
  file_bytes :: "byte list"
  read_fault :: "int64 \<Rightarrow> nat \<Rightarrow> (nat \<times> go_error) option"

definition ReadAt :: "os_file \<Rightarrow> nat \<Rightarrow> int64 \<Rightarrow> byte list \<times> nat \<times> go_error option" where
  "ReadAt file len off =
     (if off <s 0 then (replicate len 0, 0, Some negative_offset)
      else
        let avail = take len (drop (nat (sint off)) (file_bytes file));
            at_end = (if length avail < len then Some io_EOF else None);
            (got, err) =
              (case read_fault file off len of
                 None \<Rightarrow> (avail, at_end)
               | Some (k, e) \<Rightarrow> if k < length avail then (take k avail, Some e) else (avail, at_end))
        in (got @ replicate (len - length got) 0, length got, err))"

text \<open>
  The unstriped branch of \<open>parallelReadStripes\<close>: one buffer of \<open>size\<close> bytes, one
  \<open>ReadAt\<close>, and the buffer is returned together with the error.
\<close>

definition directRead :: "os_file \<Rightarrow> int64 \<Rightarrow> int64 \<Rightarrow> (byte list option \<times> go_error option) outcome" where
  "directRead file offset sz =
     (if sz <s 0 then Panics MakeSliceLenOutOfRange
      else
        let (data, n, err) = ReadAt file (nat (sint sz)) offset
        in Returns (Some data, err))"

text \<open>
  The striped branch.  Each goroutine reads its chunk into a fresh buffer and stores
  buffer and error in its own slot; \<open>sched\<close> is the order in which the goroutines
  finish, and \<open>wg.Wait\<close> returns once all of them have.  A goroutine whose chunk has a
  negative size panics in \<open>make\<close>.  The first non-nil error in slot order is returned
  with a nil slice; otherwise the slots are appended in slot order.
\<close>

definition readChunk :: "os_file \<Rightarrow> StripeChunk \<Rightarrow> byte list \<times> go_error option" where
  "readChunk file c =
     (let (data, n, err) = ReadAt file (nat (sint (Size c))) (Offset c) in (data, err))"

definition stripeWorker ::
  "os_file \<Rightarrow> StripeChunk list \<Rightarrow> byte list option list \<times> go_error option list \<Rightarrow> nat
     \<Rightarrow> byte list option list \<times> go_error option list"
where
  "stripeWorker file chunks st index =
     (case st of (results, errors) \<Rightarrow>
        if index < length chunks then
          let (data, err) = readChunk file (chunks ! index)
          in (results[index := Some data], errors[index := err])
        else (results, errors))"

definition parallelReadStripes ::
  "nat list \<Rightarrow> os_file \<Rightarrow> int64 \<Rightarrow> int64 \<Rightarrow> LustreStripeInfo
     \<Rightarrow> (byte list option \<times> go_error option) outcome option"
where
  "parallelReadStripes sched file offset sz stripeInfo =
     (if StripeCount stripeInfo \<le>s 1 then Some (directRead file offset sz)
      else
        (case calculateStripeChunks offset sz stripeInfo of
           None \<Rightarrow> None
         | Some (Panics p) \<Rightarrow> Some (Panics p)
         | Some (Returns chunks) \<Rightarrow>
             if list_ex (\<lambda>c. Size c <s 0) chunks then Some (Panics MakeSliceLenOutOfRange)
             else
               let (results, errors) =
                     foldl (stripeWorker file chunks)
                       (replicate (length chunks) None, replicate (length chunks) None) sched
               in case find (\<lambda>err. err \<noteq> None) errors of
                    Some err \<Rightarrow> Some (Returns (None, err))
                  | None \<Rightarrow>
                      let totalSize = foldl (\<lambda>t c. t + Size c) 0 chunks
                      in if totalSize <s 0 then Some (Panics MakeSliceCapOutOfRange)
                         else Some (Returns
                           (Some (concat (map (\<lambda>data. case data of None \<Rightarrow> [] | Some d \<Rightarrow> d) results)),
                            None))))"

text \<open>
  The bytes of the file in \<open>[offset, offset + size)\<close>; \<open>reads_ok\<close> says that every
  chunk of a list was read without error; \<open>reads_cover\<close> is what the decomposition loop
  guarantees about such reads.
\<close>

definition byte_range :: "os_file \<Rightarrow> int64 \<Rightarrow> int64 \<Rightarrow> byte list" where
  "byte_range file offset sz = take (nat (sint sz)) (drop (nat (sint offset)) (file_bytes file))"

definition reads_ok :: "os_file \<Rightarrow> StripeChunk list \<Rightarrow> bool" where
  "reads_ok file cs = list_all (\<lambda>c. \<not> Size c <s 0 \<and> snd (readChunk file c) = None) cs"

definition reads_cover ::
  "os_file \<Rightarrow> int64 \<Rightarrow> int64 \<Rightarrow> int64 \<Rightarrow> StripeChunk list \<Rightarrow> StripeChunk list outcome \<Rightarrow> bool"
where
  "reads_cover file ss cur rem acc y =
     (0 < sint ss \<longrightarrow>
        (\<forall>chunks. y = Returns chunks \<longrightarrow>
           (\<exists>new. chunks = acc @ new
              \<and> (reads_ok file new \<longrightarrow>
                   concat (map (\<lambda>c. fst (readChunk file c)) new)
                     = take (nat (sint rem)) (drop (nat (sint cur)) (file_bytes file))
                   \<and> (0 <s rem \<longrightarrow> 0 \<le> sint cur
                         \<and> sint cur + sint rem \<le> int (length (file_bytes file)))))))"


section \<open>backend/dynamic\_backend.go: the dynamic backend manager\<close>

datatype BackendStatus =
    BackendStatusPending
  | BackendStatusMounting
  | BackendStatusReady
  | BackendStatusError
  | BackendStatusUnmounting
  | BackendStatusUnmounted

record DynamicBackendConfig =
  BaseMountPath :: string
  DefaultBackend :: string
  BackendDefaults :: "string \<rightharpoonup> go_value"
  MountTimeout :: nat
  UnmountTimeout :: nat
  EnableQuota :: bool
  EnableMetrics :: bool

record UserBackendConfig =
  UserID :: string
  ub_BackendType :: string
  Config :: "string \<rightharpoonup> go_value"
  MountPoint :: string
  ub_Quota :: int64
  ub_UsedSpace :: int64
  CreatedAt :: nat
  LastAccessed :: nat
  Status :: BackendStatus

record CephFSConfig =
  MonitorAddresses :: "string list"
  Username :: string
  SecretKey :: string
  ceph_FileSystem :: string
  Path :: string
  ceph_Options :: "string list"

record NFSConfig =
  ServerAddress :: string
  ExportPath :: string
  Version :: string
  nfs_Options :: "string list"

record MinIOConfig =
  Endpoint :: string
  AccessKey :: string
  minio_SecretKey :: string
  Region :: string
  BucketPrefix :: string
  SSL :: bool
  UsePathStyle :: bool

text \<open>
  What the manager does outside its own memory: it creates directories, runs
  \<open>mount\<close> and \<open>umount\<close> through \<open>os/exec\<close>, calls the constructors of the posix and
  s3proxy backends, and reads the clock.  Each such call is recorded in a trace, and the
  environment decides the reply from the trace so far and the call, so a command may
  succeed at one time and fail at another, also by running into the timeout of its
  context.  \<open>ConstructBackend\<close> is not a call of the code: it marks each entry into
  \<open>createBackendByType\<close>, so that construction sequences can be counted.
\<close>

datatype sys_call =
    MkdirAll string
  | RunCommand "string list"
  | PosixNew string
  | S3ProxyNew string string string string string bool bool
  | TimeNow
  | ConstructBackend string

record sys_reply =
  reply_output :: string
  reply_error :: "go_error option"
  reply_time :: nat

type_synonym environment = "sys_call list \<Rightarrow> sys_call \<Rightarrow> sys_reply"

definition sys :: "environment \<Rightarrow> sys_call list \<Rightarrow> sys_call \<Rightarrow> sys_reply \<times> sys_call list" where
  "sys env tr c = (env tr c, tr @ [c])"

text \<open>
  A backend handle.  The number is the length of the trace at the constructor call, which
  tells two handles apart that were built with the same arguments.
\<close>

datatype Backend =
    PosixBackend nat string
  | S3ProxyBackend nat string string
  | LustreEnhancedBackend Backend LustreConfig

text \<open>
  \<open>DynamicBackendManager\<close>.  The multi-tenant manager is the interface value of the
  source, implemented by \<open>DefaultMultiTenantManager\<close>.  Each function below runs with
  the manager's lock held where the source holds it; the functions take the environment,
  the trace and the manager, and return their result with the trace and manager after
  the call.
\<close>

record DynamicBackendManager =
  userBackends :: "string \<rightharpoonup> Backend"
  userConfigs :: "string \<rightharpoonup> UserBackendConfig"
  mountPoints :: "string \<rightharpoonup> string"
  multiTenantManager :: DefaultMultiTenantManager
  baseConfig :: DynamicBackendConfig

definition NewDynamicBackendManager ::
  "DynamicBackendConfig \<Rightarrow> DefaultMultiTenantManager \<Rightarrow> DynamicBackendManager" where
  "NewDynamicBackendManager cfg mtManager =
     \<lparr> userBackends = Map.empty, userConfigs = Map.empty, mountPoints = Map.empty,
       multiTenantManager = mtManager, baseConfig = cfg \<rparr>"

text \<open>\<open>mapToStruct\<close> is a stub in the source: it reports success and leaves the target as it is.\<close>

definition mapToStruct :: "(string \<rightharpoonup> go_value) \<Rightarrow> 'a \<Rightarrow> go_error option \<times> 'a" where
  "mapToStruct m target = (None, target)"

definition zero_CephFSConfig :: CephFSConfig where
  "zero_CephFSConfig = \<lparr> MonitorAddresses = [], Username = [], SecretKey = [],
     ceph_FileSystem = [], Path = [], ceph_Options = [] \<rparr>"

definition zero_NFSConfig :: NFSConfig where
  "zero_NFSConfig = \<lparr> ServerAddress = [], ExportPath = [], Version = [], nfs_Options = [] \<rparr>"

definition zero_LustreConfig :: LustreConfig where
  "zero_LustreConfig = \<lparr> MGSNodes = [], FileSystem = [], lc_StripeCount = 0,
     lc_StripeSize = 0, lc_Options = [] \<rparr>"

definition zero_MinIOConfig :: MinIOConfig where
  "zero_MinIOConfig = \<lparr> Endpoint = [], AccessKey = [], minio_SecretKey = [], Region = [],
     BucketPrefix = [], SSL = False, UsePathStyle = False \<rparr>"

definition executeMount ::
  "environment \<Rightarrow> sys_call list \<Rightarrow> string list \<Rightarrow> go_error option \<times> sys_call list" where
  "executeMount env tr cmdArgs =
     (let (r, tr) = sys env tr (RunCommand cmdArgs)
      in case reply_error r of
           Some err \<Rightarrow> (Some (Errorf (''mount failed: '' @ reply_output r @ '': '') err), tr)
         | None \<Rightarrow> (None, tr))"

definition mountCephFS ::
  "environment \<Rightarrow> sys_call list \<Rightarrow> CephFSConfig \<Rightarrow> string \<Rightarrow> go_error option \<times> sys_call list"
where
  "mountCephFS env tr config mountPoint =
     (let (r, tr) = sys env tr (MkdirAll mountPoint)
      in case reply_error r of
           Some err \<Rightarrow> (Some err, tr)
         | None \<Rightarrow>
             let cmd = [''mount'', ''-t'', ''ceph''];
                 cmd = (if 0 < length (MonitorAddresses config)
                        then cmd @ [strings_Join (MonitorAddresses config) '','' @ '':'' @ Path config]
                        else cmd);
                 cmd = cmd @ [mountPoint];
                 cmd = (if 0 < length (ceph_Options config) \<or> Username config \<noteq> []
                        then
                          let opts = [];
                              opts = (if Username config \<noteq> []
                                      then opts @ [''name='' @ Username config] else opts);
                              opts = (if SecretKey config \<noteq> []
                                      then opts @ [''secret='' @ SecretKey config] else opts);
                              opts = opts @ ceph_Options config
                          in if 0 < length opts then cmd @ [''-o'', strings_Join opts '',''] else cmd
                        else cmd)
             in executeMount env tr cmd)"

definition mountNFS ::
  "environment \<Rightarrow> sys_call list \<Rightarrow> NFSConfig \<Rightarrow> string \<Rightarrow> go_error option \<times> sys_call list"
where
  "mountNFS env tr config mountPoint =
     (let (r, tr) = sys env tr (MkdirAll mountPoint)
      in case reply_error r of
           Some err \<Rightarrow> (Some err, tr)
         | None \<Rightarrow>
             let nfsType = (if Version config = ''nfs4'' then ''nfs4'' else ''nfs'');
                 cmd = [''mount'', ''-t'', nfsType];
                 source = ServerAddress config @ '':'' @ ExportPath config;
                 cmd = cmd @ [source, mountPoint];
                 cmd = (if 0 < length (nfs_Options config)
                        then cmd @ [''-o'', strings_Join (nfs_Options config) '',''] else cmd)
             in executeMount env tr cmd)"

definition mountLustre ::
  "environment \<Rightarrow> sys_call list \<Rightarrow> LustreConfig \<Rightarrow> string \<Rightarrow> go_error option \<times> sys_call list"
where
  "mountLustre env tr config mountPoint =
     (let (r, tr) = sys env tr (MkdirAll mountPoint)
      in case reply_error r of
           Some err \<Rightarrow> (Some err, tr)
         | None \<Rightarrow>
             let cmd = [''mount'', ''-t'', ''lustre''];
                 cmd = (if 0 < length (MGSNodes config)
                        then cmd @ [strings_Join (MGSNodes config) '','' @ '':/'' @ FileSystem config]
                        else cmd);
                 cmd = cmd @ [mountPoint];
                 cmd = (if 0 < length (lc_Options config)
                        then cmd @ [''-o'', strings_Join (lc_Options config) '',''] else cmd)
             in executeMount env tr cmd)"

definition createPosixBackend ::
  "environment \<Rightarrow> sys_call list \<Rightarrow> UserBackendConfig \<Rightarrow> (go_error + Backend) \<times> sys_call list"
where
  "createPosixBackend env tr config =
     (let (r, tr) = sys env tr (MkdirAll (MountPoint config))
      in case reply_error r of
           Some err \<Rightarrow> (Inl (Errorf ''failed to create mount point: '' err), tr)
         | None \<Rightarrow>
             let (r, tr') = sys env tr (PosixNew (MountPoint config))
             in case reply_error r of
                  Some err \<Rightarrow> (Inl err, tr')
                | None \<Rightarrow> (Inr (PosixBackend (length tr) (MountPoint config)), tr'))"

definition createLustreEnhancedBackend ::
  "environment \<Rightarrow> sys_call list \<Rightarrow> UserBackendConfig \<Rightarrow> LustreConfig
     \<Rightarrow> (go_error + Backend) \<times> sys_call list"
where
  "createLustreEnhancedBackend env tr config lustreConfig =
     (let (r, tr') = sys env tr (PosixNew (MountPoint config))
      in case reply_error r of
           Some err \<Rightarrow> (Inl err, tr')
         | None \<Rightarrow>
             (Inr (LustreEnhancedBackend (PosixBackend (length tr) (MountPoint config)) lustreConfig),
              tr'))"

definition createCephFSBackend ::
  "environment \<Rightarrow> sys_call list \<Rightarrow> DynamicBackendManager \<Rightarrow> UserBackendConfig
     \<Rightarrow> (go_error + Backend) \<times> sys_call list \<times> DynamicBackendManager"
where
  "createCephFSBackend env tr dm config =
     (case mapToStruct (Config config) zero_CephFSConfig of
        (Some err, cephConfig) \<Rightarrow> (Inl (Errorf ''invalid CephFS config: '' err), tr, dm)
      | (None, cephConfig) \<Rightarrow>
          (case mountCephFS env tr cephConfig (MountPoint config) of
             (Some err, tr) \<Rightarrow> (Inl (Errorf ''failed to mount CephFS: '' err), tr, dm)
           | (None, tr) \<Rightarrow>
               let dm = dm \<lparr> mountPoints := (mountPoints dm)(UserID config \<mapsto> MountPoint config) \<rparr>;
                   (res, tr) = createPosixBackend env tr config
               in (res, tr, dm)))"

definition createNFSBackend ::
  "environment \<Rightarrow> sys_call list \<Rightarrow> DynamicBackendManager \<Rightarrow> UserBackendConfig
     \<Rightarrow> (go_error + Backend) \<times> sys_call list \<times> DynamicBackendManager"
where
  "createNFSBackend env tr dm config =
     (case mapToStruct (Config config) zero_NFSConfig of
        (Some err, nfsConfig) \<Rightarrow> (Inl (Errorf ''invalid NFS config: '' err), tr, dm)
      | (None, nfsConfig) \<Rightarrow>
          (case mountNFS env tr nfsConfig (MountPoint config) of
             (Some err, tr) \<Rightarrow> (Inl (Errorf ''failed to mount NFS: '' err), tr, dm)
           | (None, tr) \<Rightarrow>
               let dm = dm \<lparr> mountPoints := (mountPoints dm)(UserID config \<mapsto> MountPoint config) \<rparr>;
                   (res, tr) = createPosixBackend env tr config
               in (res, tr, dm)))"

definition createLustreBackend ::
  "environment \<Rightarrow> sys_call list \<Rightarrow> DynamicBackendManager \<Rightarrow> UserBackendConfig
     \<Rightarrow> (go_error + Backend) \<times> sys_call list \<times> DynamicBackendManager"
where
  "createLustreBackend env tr dm config =
     (case mapToStruct (Config config) zero_LustreConfig of
        (Some err, lustreConfig) \<Rightarrow> (Inl (Errorf ''invalid Lustre config: '' err), tr, dm)
      | (None, lustreConfig) \<Rightarrow>
          (case mountLustre env tr lustreConfig (MountPoint config) of
             (Some err, tr) \<Rightarrow> (Inl (Errorf ''failed to mount Lustre: '' err), tr, dm)
           | (None, tr) \<Rightarrow>
               let dm = dm \<lparr> mountPoints := (mountPoints dm)(UserID config \<mapsto> MountPoint config) \<rparr>;
                   (res, tr) = createLustreEnhancedBackend env tr config lustreConfig
               in (res, tr, dm)))"

definition createMinIOBackend ::
  "environment \<Rightarrow> sys_call list \<Rightarrow> DynamicBackendManager \<Rightarrow> UserBackendConfig
     \<Rightarrow> (go_error + Backend) \<times> sys_call list \<times> DynamicBackendManager"
where
  "createMinIOBackend env tr dm config =
     (case mapToStruct (Config config) zero_MinIOConfig of
        (Some err, minioConfig) \<Rightarrow> (Inl (Errorf ''invalid MinIO config: '' err), tr, dm)
      | (None, minioConfig) \<Rightarrow>
          let metaBucket = BucketPrefix minioConfig @ ''-meta-'' @ UserID config;
              (r, tr') = sys env tr
                 (S3ProxyNew (AccessKey minioConfig) (minio_SecretKey minioConfig)
                    (Endpoint minioConfig) (Region minioConfig) metaBucket
                    (\<not> SSL minioConfig) (UsePathStyle minioConfig))
          in case reply_error r of
               Some err \<Rightarrow> (Inl err, tr', dm)
             | None \<Rightarrow> (Inr (S3ProxyBackend (length tr) (Endpoint minioConfig) metaBucket), tr', dm))"

definition createRustFSBackend ::
  "environment \<Rightarrow> sys_call list \<Rightarrow> DynamicBackendManager \<Rightarrow> UserBackendConfig
     \<Rightarrow> (go_error + Backend) \<times> sys_call list \<times> DynamicBackendManager"
where
  "createRustFSBackend env tr dm config =
     (Inl (ErrorsNew ''RustFS backend not implemented yet''), tr, dm)"

definition createBackendByType ::
  "environment \<Rightarrow> sys_call list \<Rightarrow> DynamicBackendManager \<Rightarrow> UserBackendConfig
     \<Rightarrow> (go_error + Backend) \<times> sys_call list \<times> DynamicBackendManager"
where
  "createBackendByType env tr dm config =
     (let tr = tr @ [ConstructBackend (UserID config)]
      in if ub_BackendType config = ''posix'' then
           (let (res, tr) = createPosixBackend env tr config in (res, tr, dm))
         else if ub_BackendType config = ''cephfs'' then createCephFSBackend env tr dm config
         else if ub_BackendType config = ''nfs'' then createNFSBackend env tr dm config
         else if ub_BackendType config = ''lustre'' then createLustreBackend env tr dm config
         else if ub_BackendType config = ''minio'' then createMinIOBackend env tr dm config
         else if ub_BackendType config = ''rustfs'' then createRustFSBackend env tr dm config
         else (Inl (ErrorfPlain (''unsupported backend type: '' @ ub_BackendType config)), tr, dm))"

definition createDefaultUserConfig ::
  "DynamicBackendManager \<Rightarrow> string \<Rightarrow> go_error option \<times> DynamicBackendManager" where
  "createDefaultUserConfig dm userID =
     (case GetUserBasePath (multiTenantManager dm) userID of
        Inl err \<Rightarrow> (Some err, dm)
      | Inr basePath \<Rightarrow>
          let userPath = filepath_Join [basePath, ''storage''];
              defaultConfig = \<lparr> BackendType = DefaultBackend (baseConfig dm),
                                BackendConfig = BackendDefaults (baseConfig dm),
                                StoragePath = userPath,
                                Quota = 0,
                                UsedSpace = 0,
                                Mounted = False,
                                Metadata = Map.empty \<rparr>;
              (err, m) = SetUserStorageConfig (multiTenantManager dm) userID (Some defaultConfig)
          in (err, dm \<lparr> multiTenantManager := m \<rparr>))"

text \<open>
  \<open>createUserBackend\<close>, the section under the exclusive lock.  The second
  \<open>GetUserStorageConfig\<close> drops its error; a \<open>nil\<close> record would panic at the first field
  access.  A pointer to the new \<open>UserBackendConfig\<close> is stored in the map before the
  backend is built, so the later status changes are changes of the map entry.
\<close>

definition set_status :: "DynamicBackendManager \<Rightarrow> string \<Rightarrow> BackendStatus \<Rightarrow> DynamicBackendManager" where
  "set_status dm userID st =
     (case userConfigs dm userID of
        None \<Rightarrow> dm
      | Some config \<Rightarrow> dm \<lparr> userConfigs := (userConfigs dm)(userID \<mapsto> config \<lparr> Status := st \<rparr>) \<rparr>)"

definition createUserBackend ::
  "environment \<Rightarrow> sys_call list \<Rightarrow> DynamicBackendManager \<Rightarrow> string
     \<Rightarrow> (go_error + Backend) outcome \<times> sys_call list \<times> DynamicBackendManager"
where
  "createUserBackend env tr dm userID =
     (case userBackends dm userID of
        Some backend \<Rightarrow> (Returns (Inr backend), tr, dm)
      | None \<Rightarrow>
          let (err, dm) =
                (case GetUserStorageConfig (multiTenantManager dm) userID of
                   Inr storageConfig \<Rightarrow> (None, dm)
                 | Inl _ \<Rightarrow> createDefaultUserConfig dm userID)
          in case err of
               Some e \<Rightarrow>
                 (Returns (Inl (Errorf (''failed to create default config for user '' @ userID @ '': '') e)),
                  tr, dm)
             | None \<Rightarrow>
                 (case GetUserStorageConfig (multiTenantManager dm) userID of
                    Inl _ \<Rightarrow> (Panics NilDereference, tr, dm)
                  | Inr storageConfig \<Rightarrow>
                      let (t1, tr) = sys env tr TimeNow;
                          (t2, tr) = sys env tr TimeNow;
                          userConfig = \<lparr> UserID = userID,
                                         ub_BackendType = BackendType storageConfig,
                                         Config = BackendConfig storageConfig,
                                         MountPoint = StoragePath storageConfig,
                                         ub_Quota = Quota storageConfig,
                                         ub_UsedSpace = UsedSpace storageConfig,
                                         CreatedAt = reply_time t1,
                                         LastAccessed = reply_time t2,
                                         Status = BackendStatusPending \<rparr>;
                          dm = dm \<lparr> userConfigs := (userConfigs dm)(userID \<mapsto> userConfig) \<rparr>
                      in case createBackendByType env tr dm userConfig of
                           (Inl e, tr, dm) \<Rightarrow>
                             (Returns (Inl (Errorf (''failed to create backend for user '' @ userID @ '': '') e)),
                              tr, set_status dm userID BackendStatusError)
                         | (Inr backend, tr, dm) \<Rightarrow>
                             let dm = dm \<lparr> userBackends := (userBackends dm)(userID \<mapsto> backend) \<rparr>
                             in (Returns (Inr backend), tr, set_status dm userID BackendStatusReady)))"

definition updateLastAccessed ::
  "environment \<Rightarrow> sys_call list \<Rightarrow> DynamicBackendManager \<Rightarrow> string
     \<Rightarrow> sys_call list \<times> DynamicBackendManager"
where
  "updateLastAccessed env tr dm userID =
     (case userConfigs dm userID of
        None \<Rightarrow> (tr, dm)
      | Some config \<Rightarrow>
          let (t, tr) = sys env tr TimeNow
          in (tr, dm \<lparr> userConfigs := (userConfigs dm)(userID \<mapsto> config \<lparr> LastAccessed := reply_time t \<rparr>) \<rparr>))"

text \<open>
  \<open>GetUserBackend\<close> run by one caller without interference: the lookup under the read
  lock, then either \<open>updateLastAccessed\<close> or \<open>createUserBackend\<close>.
\<close>

definition GetUserBackend ::
  "environment \<Rightarrow> sys_call list \<Rightarrow> DynamicBackendManager \<Rightarrow> string
     \<Rightarrow> (go_error + Backend) outcome \<times> sys_call list \<times> DynamicBackendManager"
where
  "GetUserBackend env tr dm userID =
     (case userBackends dm userID of
        Some backend \<Rightarrow>
          let (tr, dm) = updateLastAccessed env tr dm userID
          in (Returns (Inr backend), tr, dm)
      | None \<Rightarrow> createUserBackend env tr dm userID)"

text \<open>
  \<open>UnmountUserBackend\<close>.  \<open>umount\<close> is run first; when it fails, \<open>umount -f\<close> is run;
  when that fails too the function returns the error at once.
\<close>

definition UnmountUserBackend ::
  "environment \<Rightarrow> sys_call list \<Rightarrow> DynamicBackendManager \<Rightarrow> string
     \<Rightarrow> go_error option \<times> sys_call list \<times> DynamicBackendManager"
where
  "UnmountUserBackend env tr dm userID =
     (case mountPoints dm userID of
        None \<Rightarrow> (None, tr, dm)
      | Some mountPoint \<Rightarrow>
          let dm = set_status dm userID BackendStatusUnmounting;
              (r, tr) = sys env tr (RunCommand [''umount'', mountPoint]);
              (unmountErr, tr) =
                 (case reply_error r of
                    None \<Rightarrow> (None, tr)
                  | Some _ \<Rightarrow>
                      let (r, tr) = sys env tr (RunCommand [''umount'', ''-f'', mountPoint])
                      in (reply_error r, tr))
          in case unmountErr of
               Some err \<Rightarrow> (Some (Errorf (''failed to unmount '' @ mountPoint @ '': '') err), tr, dm)
             | None \<Rightarrow>
                 let dm = dm \<lparr> userBackends := (userBackends dm)(userID := None),
                               mountPoints := (mountPoints dm)(userID := None) \<rparr>
                 in (None, tr, set_status dm userID BackendStatusUnmounted))"


text \<open>
  Two callers of \<open>GetUserBackend\<close> for the same tenant.  Every access to the manager's
  maps happens with its lock held, so a caller moves in two indivisible steps: the lookup
  under the read lock, and then \<open>updateLastAccessed\<close> (handle found) or
  \<open>createUserBackend\<close> (lookup missed), each under the exclusive lock.  A schedule says
  which caller moves next (\<open>True\<close> for the first); a step of a caller that has
  returned changes nothing.  \<open>constructions\<close> counts the entries into
  \<open>createBackendByType\<close> for a tenant.
\<close>

datatype caller_state =
    AtLookup
  | Missed
  | Found Backend
  | Done "(go_error + Backend) outcome"

definition caller_step ::
  "environment \<Rightarrow> string \<Rightarrow> caller_state \<Rightarrow> sys_call list \<Rightarrow> DynamicBackendManager
     \<Rightarrow> caller_state \<times> sys_call list \<times> DynamicBackendManager"
where
  "caller_step env userID st tr dm =
     (case st of
        AtLookup \<Rightarrow>
          (case userBackends dm userID of
             Some backend \<Rightarrow> (Found backend, tr, dm)
           | None \<Rightarrow> (Missed, tr, dm))
      | Found backend \<Rightarrow>
          let (tr, dm) = updateLastAccessed env tr dm userID
          in (Done (Returns (Inr backend)), tr, dm)
      | Missed \<Rightarrow>
          let (res, tr, dm) = createUserBackend env tr dm userID
          in (Done res, tr, dm)
      | Done res \<Rightarrow> (Done res, tr, dm))"

type_synonym two_callers = "caller_state \<times> caller_state \<times> sys_call list \<times> DynamicBackendManager"

definition race_step :: "environment \<Rightarrow> string \<Rightarrow> two_callers \<Rightarrow> bool \<Rightarrow> two_callers" where
  "race_step env userID cfg first =
     (case cfg of (st1, st2, tr, dm) \<Rightarrow>
        if first then
          (let (st1, tr, dm) = caller_step env userID st1 tr dm in (st1, st2, tr, dm))
        else
          (let (st2, tr, dm) = caller_step env userID st2 tr dm in (st1, st2, tr, dm)))"

definition race :: "environment \<Rightarrow> string \<Rightarrow> bool list \<Rightarrow> two_callers \<Rightarrow> two_callers" where
  "race env userID sched cfg = foldl (race_step env userID) cfg sched"

definition constructions :: "string \<Rightarrow> sys_call list \<Rightarrow> nat" where
  "constructions userID tr = length (filter (\<lambda>c. c = ConstructBackend userID) tr)"

definition is_handle :: "(go_error + Backend) outcome \<Rightarrow> bool" where
  "is_handle r = (case r of Returns (Inr b) \<Rightarrow> True | _ \<Rightarrow> False)"

text \<open>
  The invariant of a race that starts without a handle: a handle a caller holds is the
  handle in the registry; the number of construction sequences is bounded by the number of
  callers that returned without a handle, plus one once a handle is stored.
\<close>

definition handle_ok :: "Backend option \<Rightarrow> caller_state \<Rightarrow> bool" where
  "handle_ok h st =
     (case st of
        Found b \<Rightarrow> h = Some b
      | Done (Returns (Inr b)) \<Rightarrow> h = Some b
      | _ \<Rightarrow> True)"

definition failed :: "caller_state \<Rightarrow> nat" where
  "failed st = (case st of Done r \<Rightarrow> (if is_handle r then 0 else 1) | _ \<Rightarrow> 0)"

definition rank :: "caller_state \<Rightarrow> nat" where
  "rank st = (case st of AtLookup \<Rightarrow> 0 | Missed \<Rightarrow> 1 | Found b \<Rightarrow> 1 | Done r \<Rightarrow> 2)"

definition race_inv :: "string \<Rightarrow> nat \<Rightarrow> two_callers \<Rightarrow> bool" where
  "race_inv u c0 cfg =
     (case cfg of (st1, st2, tr, dm) \<Rightarrow>
        handle_ok (userBackends dm u) st1 \<and> handle_ok (userBackends dm u) st2
        \<and> constructions u tr \<le> c0 + failed st1 + failed st2
              + (if userBackends dm u = None then 0 else 1)
        \<and> c0 \<le> constructions u tr
        \<and> (userBackends dm u \<noteq> None \<longrightarrow> c0 + 1 \<le> constructions u tr))"


text \<open>
  Environments and managers for the concrete runs below: an environment in which every
  call succeeds, one in which every \<open>umount\<close> fails, one in which only the forced
  \<open>umount\<close> of alice's mount point succeeds, a manager with one tenant mounted
  through CephFS, and a fresh manager whose one tenant is configured for \<open>rustfs\<close>.
\<close>

definition calm_env :: environment where
  "calm_env tr c = \<lparr> reply_output = [], reply_error = None, reply_time = length tr \<rparr>"

definition stuck_env :: environment where
  "stuck_env tr c =
     (case c of
        RunCommand args \<Rightarrow>
          \<lparr> reply_output = ''target is busy'',
            reply_error = (if hd args = ''umount'' then Some (ExternalError ''exit status 32'') else None),
            reply_time = length tr \<rparr>
      | _ \<Rightarrow> \<lparr> reply_output = [], reply_error = None, reply_time = length tr \<rparr>)"

definition force_env :: environment where
  "force_env tr c =
     \<lparr> reply_output = [],
       reply_error = (if c = RunCommand [''umount'', ''/mnt/alice'']
                      then Some (ExternalError ''exit status 32'') else None),
       reply_time = length tr \<rparr>"

definition example_mt :: "string \<Rightarrow> DefaultMultiTenantManager" where
  "example_mt backendType =
     \<lparr> mt_config = \<lparr> Enabled = True, DefaultBackendType = backendType, BasePath = ''/data'',
                      DefaultQuota = 0 \<rparr>,
       mt_userConfigs = [''alice'' \<mapsto>
         \<lparr> BackendType = backendType, BackendConfig = Map.empty,
           StoragePath = ''/mnt/alice'', Quota = 0, UsedSpace = 0,
           Mounted = False, Metadata = Map.empty \<rparr>] \<rparr>"

definition example_base :: DynamicBackendConfig where
  "example_base = \<lparr> BaseMountPath = ''/mnt'', DefaultBackend = ''posix'',
     BackendDefaults = Map.empty, MountTimeout = 30, UnmountTimeout = 30,
     EnableQuota = False, EnableMetrics = False \<rparr>"

definition mounted_example :: DynamicBackendManager where
  "mounted_example =
     \<lparr> userBackends = [''alice'' \<mapsto> PosixBackend 3 ''/mnt/alice''],
       userConfigs = [''alice'' \<mapsto>
         \<lparr> UserID = ''alice'', ub_BackendType = ''cephfs'', Config = Map.empty,
           MountPoint = ''/mnt/alice'', ub_Quota = 0, ub_UsedSpace = 0,
           CreatedAt = 0, LastAccessed = 0, Status = BackendStatusReady \<rparr>],
       mountPoints = [''alice'' \<mapsto> ''/mnt/alice''],
       multiTenantManager = example_mt ''cephfs'',
       baseConfig = example_base \<rparr>"

definition rustfs_example :: DynamicBackendManager where
  "rustfs_example = NewDynamicBackendManager example_base (example_mt ''rustfs'')"


text \<open>
  Managers with one tenant configured for posix and for CephFS, and an environment in
  which the first command that is run fails and every later one succeeds.
\<close>

definition posix_example :: DynamicBackendManager where
  "posix_example = NewDynamicBackendManager example_base (example_mt ''posix'')"

definition cephfs_example :: DynamicBackendManager where
  "cephfs_example = NewDynamicBackendManager example_base (example_mt ''cephfs'')"

definition is_command :: "sys_call \<Rightarrow> bool" where
  "is_command c = (case c of RunCommand args \<Rightarrow> True | _ \<Rightarrow> False)"

definition flaky_env :: environment where
  "flaky_env tr c =
     \<lparr> reply_output = [],
       reply_error = (if is_command c \<and> \<not> list_ex is_command tr
                      then Some (ExternalError ''exit status 32'') else None),
       reply_time = length tr \<rparr>"


text \<open>
  Two files of twenty and of twelve bytes, the second with a failing read at offset 8,
  a layout of two stripes of four bytes, and an unstriped layout.
\<close>

definition digits_file :: os_file where
  "digits_file = \<lparr> file_bytes = [0, 1, 2, 3, 4, 5, 6, 7, 8, 9, 10, 11, 12, 13, 14, 15, 16, 17, 18, 19],
                    read_fault = (\<lambda>off len. None) \<rparr>"

definition faulty_file :: os_file where
  "faulty_file = \<lparr> file_bytes = [0, 1, 2, 3, 4, 5, 6, 7, 8, 9, 10, 11],
                    read_fault = (\<lambda>off len. if off = 8 then Some (0, ExternalError ''input/output error'')
                                             else None) \<rparr>"

definition two_stripes :: LustreStripeInfo where
  "two_stripes = \<lparr> StripeCount = 2, StripeSize = 4, StripeIndex = - 1, OSTs = [] \<rparr>"


definition one_stripe :: LustreStripeInfo where
  "one_stripe = \<lparr> StripeCount = 1, StripeSize = 4, StripeIndex = - 1, OSTs = [] \<rparr>"


section \<open>Stripe planner: the tiered policy\<close>

text \<open>
  C4.  For every object size the planned stripe count is the tier of the size
  (1 below 1 MiB, 2 below 100 MiB, 4 below 1 GiB, 8 from 1 GiB on), capped at the
  configured stripe count when that is positive, and the preferred stripe index is
  \<open>-1\<close>.  With a configured maximum of 0 a 2 GiB object plans 8 stripes and a
  500 KiB object plans 1.
\<close>

theorem calculateOptimalStriping_tiers:
  "sint (StripeCount (calculateOptimalStriping cfg sz))
     = spec_capped (sint (lc_StripeCount cfg)) (spec_tier (sint sz))
   \<and> StripeIndex (calculateOptimalStriping cfg sz) = - 1
   \<and> StripeCount (calculateOptimalStriping (cfg \<lparr> lc_StripeCount := 0 \<rparr>) 2147483648) = 8
   \<and> StripeCount (calculateOptimalStriping (cfg \<lparr> lc_StripeCount := 0 \<rparr>) 512000) = 1"
  by (simp add: calculateOptimalStriping_def spec_capped_def spec_tier_def Let_def
        word_sless_alt min_def)


section \<open>Signed 64-bit arithmetic without overflow\<close>

lemma sint_word_of_int_int64:
  "- (2 ^ 63) \<le> k \<Longrightarrow> k < 2 ^ 63 \<Longrightarrow> sint (word_of_int k :: int64) = k"
  by (simp add: sint_sbintrunc' signed_take_bit_int_eq_self)

lemma sint_int64_bounds: "- (2 ^ 63) \<le> sint (w :: int64)" "sint (w :: int64) < 2 ^ 63"
  using sint_ge [of w] sint_lt [of w] by simp_all

lemma sint_add_int64:
  "- (2 ^ 63) \<le> sint a + sint b \<Longrightarrow> sint a + sint b < 2 ^ 63 \<Longrightarrow> sint (a + b :: int64) = sint a + sint b"
  by (simp add: sint_word_ariths signed_take_bit_int_eq_self)

lemma sint_sub_int64:
  "- (2 ^ 63) \<le> sint a - sint b \<Longrightarrow> sint a - sint b < 2 ^ 63 \<Longrightarrow> sint (a - b :: int64) = sint a - sint b"
  by (simp add: sint_word_ariths signed_take_bit_int_eq_self)

lemma sdiv_nonneg: "0 \<le> (a::int) \<Longrightarrow> 0 < b \<Longrightarrow> a sdiv b = a div b"
  by (simp add: signed_divide_int_def sgn_if)

lemma smod_nonneg: "0 \<le> (a::int) \<Longrightarrow> 0 < b \<Longrightarrow> a smod b = a mod b"
  by (simp add: signed_modulo_int_def sgn_if)

lemma sint_go_quo:
  assumes "0 \<le> sint a" "0 < sint b"
  shows "sint (go_quo a b) = sint a div sint b"
proof -
  have "sint a div sint b \<le> sint a"
    using zdiv_mono2 [of "sint a" 1 "sint b"] assms by simp
  moreover have "0 \<le> sint a div sint b" using assms by (simp add: pos_imp_zdiv_nonneg_iff)
  ultimately show ?thesis
    using assms sint_int64_bounds [of a]
    by (simp add: go_quo_def sdiv_nonneg sint_word_of_int_int64)
qed

lemma sint_go_rem:
  assumes "0 \<le> sint a" "0 < sint b"
  shows "sint (go_rem a b) = sint a mod sint b"
proof -
  have "sint a mod sint b < sint b" "0 \<le> sint a mod sint b"
    using assms by simp_all
  then have "- (2 ^ 63) \<le> sint a mod sint b" "sint a mod sint b < 2 ^ 63"
    using sint_int64_bounds [of b] by linarith+
  then have "sint (word_of_int (sint a mod sint b) :: int64) = sint a mod sint b"
    by (rule sint_word_of_int_int64)
  then show ?thesis
    using assms by (simp add: go_rem_def smod_nonneg)
qed


section \<open>Stripe planner: the range decomposition\<close>

lemma same_stripe_int:
  fixes a c s :: int
  assumes "0 < s" "0 < c" "c \<le> s - a mod s"
  shows "(a + c - 1) div s = a div s"
proof -
  define r where "r = a mod s + c - 1"
  have nz: "s \<noteq> 0" using assms(1) by simp
  have r: "0 \<le> r" "r < s"
    using assms by (simp_all add: r_def add_nonneg_pos)
  have "a + c - 1 = r + (a div s) * s"
    by (simp add: r_def)
  then have "(a + c - 1) div s = (r + (a div s) * s) div s" by (rule arg_cong)
  also have "\<dots> = a div s + r div s" using nz by (rule div_mult_self1)
  also have "r div s = 0" using r by simp
  finally show ?thesis by simp
qed

lemma stripeChunksLoop_done:
  "\<not> 0 <s rem \<Longrightarrow> stripeChunksLoop ss sc cur rem acc = Some (Returns acc)"
  by (subst stripeChunksLoop.simps) simp

lemma stripeChunksLoop_step:
  assumes "0 <s rem" "ss \<noteq> 0" "sc \<noteq> 0"
  shows "stripeChunksLoop ss sc cur rem acc =
     stripeChunksLoop ss sc
       (cur + (if rem <s ss - go_rem cur ss then rem else ss - go_rem cur ss))
       (rem - (if rem <s ss - go_rem cur ss then rem else ss - go_rem cur ss))
       (acc @ [\<lparr> Offset = cur,
                  Size = (if rem <s ss - go_rem cur ss then rem else ss - go_rem cur ss),
                  Stripe = go_rem (go_quo cur ss) sc \<rparr>])"
  using assms by (subst stripeChunksLoop.simps) (simp add: Let_def)

lemma stripeChunksLoop_spec:
  assumes ss: "0 < sint ss" and sc: "0 < sint sc"
  shows "0 \<le> sint cur \<Longrightarrow> 0 \<le> sint rem \<Longrightarrow> sint cur + sint rem \<le> 2 ^ 63 \<Longrightarrow>
     \<exists>new. stripeChunksLoop ss sc cur rem acc = Some (Returns (acc @ new))
        \<and> contiguous_from (sint cur) new
        \<and> total_size new = sint rem
        \<and> (\<forall>c \<in> set new. 0 < sint (Size c) \<and> within_one_stripe (sint ss) c
               \<and> stripe_index_ok (sint ss) (sint sc) c)"
proof (induction "nat (sint rem)" arbitrary: cur rem acc rule: less_induct)
  case less
  show ?case
  proof (cases "0 <s rem")
    case False
    with less.prems have "sint rem = 0" by (simp add: word_sless_alt)
    with False show ?thesis
      by (intro exI [of _ "[]"]) (simp add: stripeChunksLoop_done total_size_def)
  next
    case True
    then have rem_pos: "0 < sint rem" by (simp add: word_sless_alt)
    have nz: "ss \<noteq> 0" "sc \<noteq> 0" using ss sc by auto
    define so where "so = go_rem cur ss"
    define c0 where "c0 = ss - so"
    define cs where "cs = (if rem <s c0 then rem else c0)"
    define ch where "ch = \<lparr> Offset = cur, Size = cs, Stripe = go_rem (go_quo cur ss) sc \<rparr>"
    have so: "sint so = sint cur mod sint ss"
      unfolding so_def using less.prems(1) ss by (rule sint_go_rem)
    have so_bounds: "0 \<le> sint so" "sint so < sint ss"
      using ss by (simp_all add: so)
    have c0: "sint c0 = sint ss - sint so"
      unfolding c0_def using so_bounds sint_int64_bounds [of ss]
      by (intro sint_sub_int64) linarith+
    have cs: "sint cs = min (sint rem) (sint c0)"
      by (simp add: cs_def word_sless_alt min_def)
    have cs_bounds: "0 < sint cs" "sint cs \<le> sint rem" "sint cs \<le> sint ss - sint cur mod sint ss"
      using rem_pos so_bounds by (simp_all add: cs c0 so)
    have rem': "sint (rem - cs) = sint rem - sint cs"
      using cs_bounds sint_int64_bounds [of rem]
      by (intro sint_sub_int64) linarith+
    have q: "sint (go_quo cur ss) = sint cur div sint ss"
      using less.prems(1) ss by (rule sint_go_quo)
    have "0 \<le> sint cur div sint ss"
      using less.prems(1) ss by (simp add: pos_imp_zdiv_nonneg_iff)
    then have idx: "sint (go_rem (go_quo cur ss) sc) = (sint cur div sint ss) mod sint sc"
      using sint_go_rem [of "go_quo cur ss" sc] sc by (simp add: q)
    have ch_ok: "0 < sint (Size ch)" "within_one_stripe (sint ss) ch"
        "stripe_index_ok (sint ss) (sint sc) ch"
      using cs_bounds same_stripe_int [of "sint ss" "sint cs" "sint cur"] ss
      by (simp_all add: ch_def within_one_stripe_def stripe_index_ok_def idx)
    have step: "stripeChunksLoop ss sc cur rem acc
                  = stripeChunksLoop ss sc (cur + cs) (rem - cs) (acc @ [ch])"
      using stripeChunksLoop_step [OF True nz, of cur acc]
      by (simp add: cs_def c0_def so_def ch_def)
    show ?thesis
    proof (cases "sint cs = sint rem")
      case True
      then have "\<not> 0 <s rem - cs" by (simp add: word_sless_alt rem')
      then have "stripeChunksLoop ss sc cur rem acc = Some (Returns (acc @ [ch]))"
        by (simp add: step stripeChunksLoop_done)
      with True ch_ok show ?thesis
        by (intro exI [of _ "[ch]"]) (simp add: total_size_def ch_def)
    next
      case False
      with cs_bounds have lt: "sint cs < sint rem" by simp
      have cur': "sint (cur + cs) = sint cur + sint cs"
        using lt less.prems cs_bounds sint_int64_bounds [of cur]
        by (intro sint_add_int64) linarith+
      have "nat (sint (rem - cs)) < nat (sint rem)"
        using cs_bounds rem_pos by (simp add: rem')
      moreover have "0 \<le> sint (cur + cs)" "0 \<le> sint (rem - cs)"
          "sint (cur + cs) + sint (rem - cs) \<le> 2 ^ 63"
        using less.prems cs_bounds by (simp_all add: cur' rem')
      ultimately obtain new where new:
        "stripeChunksLoop ss sc (cur + cs) (rem - cs) (acc @ [ch]) = Some (Returns ((acc @ [ch]) @ new))"
        "contiguous_from (sint (cur + cs)) new"
        "total_size new = sint (rem - cs)"
        "\<forall>c \<in> set new. 0 < sint (Size c) \<and> within_one_stripe (sint ss) c
               \<and> stripe_index_ok (sint ss) (sint sc) c"
        using less.hyps [of "rem - cs" "cur + cs" "acc @ [ch]"] by blast
      show ?thesis
        using new ch_ok
        by (intro exI [of _ "ch # new"]) (simp add: step total_size_def cur' rem' ch_def)
    qed
  qed
qed


lemma contiguous_from_lower:
  "contiguous_from p cs \<Longrightarrow> \<forall>c \<in> set cs. 0 < sint (Size c) \<Longrightarrow> c \<in> set cs
     \<Longrightarrow> p \<le> sint (Offset c)"
proof (induction cs arbitrary: p)
  case Nil
  then show ?case by simp
next
  case (Cons d ds)
  show ?case
  proof (cases "c = d")
    case True
    with Cons.prems show ?thesis by simp
  next
    case False
    with Cons.prems have "c \<in> set ds" by simp
    then have "p + sint (Size d) \<le> sint (Offset c)"
      using Cons.IH [of "p + sint (Size d)"] Cons.prems by simp
    with Cons.prems show ?thesis by simp
  qed
qed

lemma contiguous_from_ordered:
  "contiguous_from p cs \<Longrightarrow> \<forall>c \<in> set cs. 0 < sint (Size c) \<Longrightarrow> i < j \<Longrightarrow> j < length cs
     \<Longrightarrow> chunk_end (cs ! i) \<le> sint (Offset (cs ! j))"
proof (induction cs arbitrary: p i j)
  case Nil
  then show ?case by simp
next
  case (Cons d ds)
  from Cons.prems obtain j' where j: "j = Suc j'" "j' < length ds"
    by (cases j) auto
  have tl: "contiguous_from (p + sint (Size d)) ds" "\<forall>c \<in> set ds. 0 < sint (Size c)"
    using Cons.prems by simp_all
  show ?case
  proof (cases i)
    case 0
    have "ds ! j' \<in> set ds" using j by simp
    then have "p + sint (Size d) \<le> sint (Offset (ds ! j'))"
      using contiguous_from_lower [OF tl] by blast
    with Cons.prems 0 j show ?thesis by (simp add: chunk_end_def)
  next
    case (Suc i')
    with Cons.prems j have "i' < j'" by simp
    then show ?thesis
      using Cons.IH [OF tl _ j(2)] Suc j by simp
  qed
qed

lemma contiguous_from_covers:
  "contiguous_from p cs \<Longrightarrow> \<forall>c \<in> set cs. 0 < sint (Size c)
     \<Longrightarrow> (\<exists>c \<in> set cs. sint (Offset c) \<le> b \<and> b < chunk_end c)
           = (p \<le> b \<and> b < p + total_size cs)"
proof (induction cs arbitrary: p)
  case Nil
  then show ?case by (simp add: total_size_def)
next
  case (Cons d ds)
  have tl: "contiguous_from (p + sint (Size d)) ds" "\<forall>c \<in> set ds. 0 < sint (Size c)"
    using Cons.prems by simp_all
  have hd: "sint (Offset d) = p" "0 < sint (Size d)" using Cons.prems by simp_all
  have nonneg: "0 \<le> total_size ds"
    using tl(2) unfolding total_size_def by (induction ds) (auto simp: add_nonneg_nonneg less_imp_le)
  have "(\<exists>c \<in> set (d # ds). sint (Offset c) \<le> b \<and> b < chunk_end c)
        = ((p \<le> b \<and> b < p + sint (Size d))
            \<or> (\<exists>c \<in> set ds. sint (Offset c) \<le> b \<and> b < chunk_end c))"
    using hd by (auto simp: chunk_end_def)
  also have "\<dots> = ((p \<le> b \<and> b < p + sint (Size d))
            \<or> (p + sint (Size d) \<le> b \<and> b < p + sint (Size d) + total_size ds))"
    using Cons.IH [OF tl] by simp
  also have "\<dots> = (p \<le> b \<and> b < p + total_size (d # ds))"
    using hd nonneg by (auto simp: total_size_def)
  finally show ?case .
qed

text \<open>
  C1 (as amended).  For every offset \<open>\<ge> 0\<close>, length \<open>> 0\<close>, stripe size \<open>> 0\<close> and stripe
  count \<open>\<ge> 1\<close> with \<open>offset + length \<le> 2^63\<close>, \<open>calculateStripeChunks\<close> returns a
  non-empty chunk sequence that starts at the offset, in which each chunk starts where the
  previous one ends, whose sizes add up to the length, that is ordered and free of
  overlaps, that covers exactly the bytes of \<open>[offset, offset + length)\<close>, and in which
  every chunk has a positive size, lies inside one stripe, and carries the stripe index
  \<open>(Offset div stripeSize) mod stripeCount\<close>.
\<close>

theorem calculateStripeChunks_decomposes:
  assumes "0 \<le>s offset" and "0 <s sz"
    and "0 <s StripeSize stripeInfo" and "1 \<le>s StripeCount stripeInfo"
    and "sint offset + sint sz \<le> 2 ^ 63"
  shows "\<exists>chunks. calculateStripeChunks offset sz stripeInfo = Some (Returns chunks)
     \<and> chunks \<noteq> []
     \<and> contiguous_from (sint offset) chunks
     \<and> total_size chunks = sint sz
     \<and> (\<forall>i j. i < j \<and> j < length chunks
            \<longrightarrow> chunk_end (chunks ! i) \<le> sint (Offset (chunks ! j)))
     \<and> (\<forall>b. (\<exists>c \<in> set chunks. sint (Offset c) \<le> b \<and> b < chunk_end c)
            = (sint offset \<le> b \<and> b < sint offset + sint sz))
     \<and> (\<forall>c \<in> set chunks. 0 < sint (Size c)
            \<and> within_one_stripe (sint (StripeSize stripeInfo)) c
            \<and> stripe_index_ok (sint (StripeSize stripeInfo)) (sint (StripeCount stripeInfo)) c)"
proof -
  have pre: "0 < sint (StripeSize stripeInfo)" "0 < sint (StripeCount stripeInfo)"
      "0 \<le> sint offset" "0 \<le> sint sz"
    using assms by (simp_all add: word_sle_eq word_sless_alt)
  obtain chunks where chunks:
    "calculateStripeChunks offset sz stripeInfo = Some (Returns chunks)"
    "contiguous_from (sint offset) chunks"
    "total_size chunks = sint sz"
    "\<forall>c \<in> set chunks. 0 < sint (Size c)
            \<and> within_one_stripe (sint (StripeSize stripeInfo)) c
            \<and> stripe_index_ok (sint (StripeSize stripeInfo)) (sint (StripeCount stripeInfo)) c"
    using stripeChunksLoop_spec [OF pre assms(5), of "[]"]
    by (auto simp: calculateStripeChunks_def)
  have pos: "\<forall>c \<in> set chunks. 0 < sint (Size c)" using chunks(4) by blast
  have "chunks \<noteq> []"
    using chunks(3) assms(2) by (auto simp: total_size_def word_sless_alt)
  moreover have "\<forall>i j. i < j \<and> j < length chunks
            \<longrightarrow> chunk_end (chunks ! i) \<le> sint (Offset (chunks ! j))"
    using contiguous_from_ordered [OF chunks(2) pos] by blast
  moreover have "\<forall>b. (\<exists>c \<in> set chunks. sint (Offset c) \<le> b \<and> b < chunk_end c)
            = (sint offset \<le> b \<and> b < sint offset + sint sz)"
    using contiguous_from_covers [OF chunks(2) pos] chunks(3) by simp
  ultimately show ?thesis using chunks by blast
qed

theorem calculateStripeChunks_decomposes_witness:
  "\<exists>chunks. calculateStripeChunks 5 10 \<lparr> StripeCount = 2, StripeSize = 4, StripeIndex = - 1, OSTs = [] \<rparr>
        = Some (Returns chunks)
     \<and> chunks \<noteq> []
     \<and> contiguous_from 5 chunks
     \<and> total_size chunks = 10
     \<and> (\<forall>i j. i < j \<and> j < length chunks
            \<longrightarrow> chunk_end (chunks ! i) \<le> sint (Offset (chunks ! j)))
     \<and> (\<forall>b. (\<exists>c \<in> set chunks. sint (Offset c) \<le> b \<and> b < chunk_end c) = (5 \<le> b \<and> b < 15))
     \<and> (\<forall>c \<in> set chunks. 0 < sint (Size c) \<and> within_one_stripe 4 c \<and> stripe_index_ok 4 2 c)"
  using calculateStripeChunks_decomposes
    [of 5 10 "\<lparr> StripeCount = 2, StripeSize = 4, StripeIndex = - 1, OSTs = [] \<rparr>"]
  by (simp add: word_sle_eq word_sless_alt)

lemmas go_arith_eval =
  word_sless_alt word_sle_eq go_quo_def go_rem_def signed_divide_int_def signed_modulo_int_def

lemma calculateStripeChunks_example:
  "calculateStripeChunks 5 10 \<lparr> StripeCount = 2, StripeSize = 4, StripeIndex = - 1, OSTs = [] \<rparr>
     = Some (Returns [\<lparr> Offset = 5, Size = 3, Stripe = 1 \<rparr>,
                      \<lparr> Offset = 8, Size = 4, Stripe = 0 \<rparr>,
                      \<lparr> Offset = 12, Size = 3, Stripe = 1 \<rparr>])"
  by (simp add: calculateStripeChunks_def stripeChunksLoop_step stripeChunksLoop_done go_arith_eval)

text \<open>
  C1 as stated fails when \<open>offset + length\<close> exceeds the int64 range: at offset
  \<open>2^63 - 2\<close> and length 4 the running offset wraps around, and the second chunk starts at
  \<open>-2^63\<close> instead of where the first one ends.
\<close>

theorem calculateStripeChunks_wraps_counterexample:
  "0 \<le>s (9223372036854775806 :: int64) \<and> 0 <s (4 :: int64)
   \<and> calculateStripeChunks 9223372036854775806 4
        \<lparr> StripeCount = 2, StripeSize = 4, StripeIndex = - 1, OSTs = [] \<rparr>
     = Some (Returns [\<lparr> Offset = 9223372036854775806, Size = 2, Stripe = 1 \<rparr>,
                      \<lparr> Offset = - 9223372036854775808, Size = 2, Stripe = 0 \<rparr>])
   \<and> \<not> contiguous_from 9223372036854775806
        [\<lparr> Offset = 9223372036854775806, Size = 2, Stripe = 1 \<rparr>,
         \<lparr> Offset = - 9223372036854775808, Size = 2, Stripe = 0 \<rparr>]"
  by (simp add: calculateStripeChunks_def stripeChunksLoop_step stripeChunksLoop_done go_arith_eval)


section \<open>Quota guard\<close>

lemma CheckQuota_unlimited:
  "mt_userConfigs m userID = Some cfg \<Longrightarrow> Quota cfg = 0
     \<Longrightarrow> CheckQuota m userID additionalSize = None"
  by (simp add: CheckQuota_def GetUserStorageConfig_def)

text \<open>
  While the sum of the used and the additional bytes stays inside the int64 range, the
  check is the comparison of the mathematical sum with the quota.
\<close>

lemma CheckQuota_in_range:
  assumes "mt_userConfigs m userID = Some cfg" and "Quota cfg \<noteq> 0"
    and "- (2 ^ 63) \<le> sint (UsedSpace cfg) + sint additionalSize"
    and "sint (UsedSpace cfg) + sint additionalSize < 2 ^ 63"
  shows "CheckQuota m userID additionalSize
           = (if sint (UsedSpace cfg) + sint additionalSize \<le> sint (Quota cfg) then None
              else Some ErrQuotaExceeded)"
  using assms by (simp add: CheckQuota_def GetUserStorageConfig_def word_sless_alt sint_add_int64)

lemma CheckQuota_scenarios:
  assumes "mt_userConfigs m userID = Some cfg" and "Quota cfg = 100" and "UsedSpace cfg = 90"
  shows "CheckQuota m userID 20 = Some ErrQuotaExceeded" and "CheckQuota m userID 10 = None"
  using assms by (simp_all add: CheckQuota_def GetUserStorageConfig_def word_sless_alt)

text \<open>
  C3.  The specification has \<open>CheckQuota\<close> return \<open>ErrQuotaExceeded\<close> exactly when used
  plus additional bytes exceed the quota.  The code adds in int64 before it compares: for
  the tenant with quota 100 and 90 bytes used, an additional size of \<open>2^63 - 1\<close> makes the
  sum wrap around to a negative number, and the check lets the write through although
  used plus additional bytes exceed the quota.
\<close>

theorem CheckQuota_overflow_admits:
  "CheckQuota quota_example ''alice'' 9223372036854775807 = None
   \<and> (100 :: int) < 90 + sint (9223372036854775807 :: int64)"
  by (simp add: CheckQuota_def GetUserStorageConfig_def word_sless_alt quota_example_def)


section \<open>Access validation\<close>

lemma strip_common_nil_prefix: "strip_common bs ts = ([], r) \<Longrightarrow> prefix bs ts"
  by (induction bs ts rule: strip_common.induct) (auto split: if_splits)

lemma dotdot_join_prefix: "strings_HasPrefix (strings_Join (''..'' # xs) ''/'') ''..''"
  by (cases xs) simp_all

text \<open>Whatever \<open>isSubPath\<close> accepts lies lexically under the base path.\<close>

lemma isSubPath_sound:
  assumes "isSubPath basePath path"
  shows "lexical_descendant basePath path"
proof (cases "filepath_Clean path = filepath_Clean basePath")
  case True
  then show ?thesis by (simp add: lexical_descendant_def)
next
  case False
  define base where "base = filepath_Clean basePath"
  define targ where "targ = filepath_Clean path"
  define base' where "base' = (if base = ''.'' then [] else base)"
  have elems: "path_elements base' = path_elements base"
    by (simp add: base'_def path_elements_def)
  have slashed': "strings_HasPrefix base' ''/'' = strings_HasPrefix base ''/''"
    by (simp add: base'_def)
  obtain br tr where sc: "strip_common (path_elements base') (path_elements targ) = (br, tr)"
    by (cases "strip_common (path_elements base') (path_elements targ)")
  from assms False have slashed: "strings_HasPrefix base' ''/'' = strings_HasPrefix targ ''/''"
    by (auto simp: isSubPath_def filepath_Rel_def Let_def base_def targ_def base'_def
          split: if_splits)
  have "br = []"
  proof (rule ccontr)
    assume "br \<noteq> []"
    then obtain b bs where br: "br = b # bs" by (cases br) auto
    from assms False slashed sc br show False
      using dotdot_join_prefix [of "replicate (length bs) ''..'' @ tr"]
      by (auto simp: isSubPath_def filepath_Rel_def Let_def base_def targ_def base'_def
            filepath_HasPrefix_def split: if_splits)
  qed
  with sc have "prefix (path_elements base') (path_elements targ)"
    by (auto dest: strip_common_nil_prefix)
  with slashed show ?thesis
    by (simp add: lexical_descendant_def Let_def elems slashed' base_def [symmetric]
          targ_def [symmetric])
qed

text \<open>
  C7.  The specification has a resource permitted, with isolation enabled, exactly when it
  lies under the user's base path.  \<open>isSubPath\<close> rejects every relative path that begins
  with the two characters \<open>..\<close>, and so denies a child whose name merely begins with two
  dots: \<open>/data/users/alice/..hidden\<close> lies under alice's base path
  \<open>/data/users/alice\<close> and is refused.
\<close>

theorem ValidateUserAccess_denies_dotdot_named_child:
  "IsTenantIsolationEnabled quota_example
   \<and> GetUserBasePath quota_example ''alice'' = Inr ''/data/users/alice''
   \<and> lexical_descendant ''/data/users/alice'' ''/data/users/alice/..hidden''
   \<and> filepath_Rel ''/data/users/alice'' ''/data/users/alice/..hidden'' = Inr ''..hidden''
   \<and> ValidateUserAccess ''alice'' ''/data/users/alice/..hidden'' quota_example
       = Some (ErrorsNew ''access denied: resource outside user namespace'')"
  by code_simp


section \<open>Teardown of a tenant's backend\<close>

lemma set_status_backends [simp]:
  "userBackends (set_status dm u st) = userBackends dm"
  "mountPoints (set_status dm u st) = mountPoints dm"
  "multiTenantManager (set_status dm u st) = multiTenantManager dm"
  "baseConfig (set_status dm u st) = baseConfig dm"
  by (simp_all add: set_status_def split: option.splits)

text \<open>
  C2 (as amended).  For every tenant whose mount point is tracked, \<open>UnmountUserBackend\<close>
  first runs the graceful \<open>umount\<close>; when that succeeds nothing else is run; when it
  fails, the forced \<open>umount -f\<close> is run exactly once.  When one of the two succeeds the
  call returns success and the tenant's backend handle and mount-point record are gone
  from the registry.  When both fail the call returns the unmount error and the handle
  and the mount-point record stay in the registry.
\<close>

theorem UnmountUserBackend_teardown:
  assumes "mountPoints dm userID = Some mountPoint"
  shows "let graceful = RunCommand [''umount'', mountPoint];
             forced = RunCommand [''umount'', ''-f'', mountPoint];
             first = reply_error (env tr graceful);
             second = reply_error (env (tr @ [graceful]) forced);
             res = UnmountUserBackend env tr dm userID;
             dm' = snd (snd res)
         in (first = None \<longrightarrow>
               fst res = None \<and> fst (snd res) = tr @ [graceful]
               \<and> userBackends dm' userID = None \<and> mountPoints dm' userID = None)
          \<and> (first \<noteq> None \<and> second = None \<longrightarrow>
               fst res = None \<and> fst (snd res) = tr @ [graceful, forced]
               \<and> userBackends dm' userID = None \<and> mountPoints dm' userID = None)
          \<and> (\<forall>e. first \<noteq> None \<and> second = Some e \<longrightarrow>
               fst res = Some (Errorf (''failed to unmount '' @ mountPoint @ '': '') e)
               \<and> fst (snd res) = tr @ [graceful, forced]
               \<and> userBackends dm' userID = userBackends dm userID
               \<and> mountPoints dm' userID = Some mountPoint)"
  using assms
  by (auto simp: UnmountUserBackend_def Let_def sys_def split: option.splits)

theorem UnmountUserBackend_teardown_witness:
  "(fst (UnmountUserBackend calm_env [] mounted_example ''alice'') = None
    \<and> fst (snd (UnmountUserBackend calm_env [] mounted_example ''alice''))
         = [RunCommand [''umount'', ''/mnt/alice'']]
    \<and> userBackends (snd (snd (UnmountUserBackend calm_env [] mounted_example ''alice''))) ''alice'' = None
    \<and> mountPoints (snd (snd (UnmountUserBackend calm_env [] mounted_example ''alice''))) ''alice'' = None)
   \<and> (fst (UnmountUserBackend force_env [] mounted_example ''alice'') = None
    \<and> fst (snd (UnmountUserBackend force_env [] mounted_example ''alice''))
         = [RunCommand [''umount'', ''/mnt/alice''], RunCommand [''umount'', ''-f'', ''/mnt/alice'']]
    \<and> userBackends (snd (snd (UnmountUserBackend force_env [] mounted_example ''alice''))) ''alice'' = None
    \<and> mountPoints (snd (snd (UnmountUserBackend force_env [] mounted_example ''alice''))) ''alice'' = None)
   \<and> (fst (UnmountUserBackend stuck_env [] mounted_example ''alice'')
         = Some (Errorf ''failed to unmount /mnt/alice: '' (ExternalError ''exit status 32''))
    \<and> fst (snd (UnmountUserBackend stuck_env [] mounted_example ''alice''))
         = [RunCommand [''umount'', ''/mnt/alice''], RunCommand [''umount'', ''-f'', ''/mnt/alice'']]
    \<and> userBackends (snd (snd (UnmountUserBackend stuck_env [] mounted_example ''alice''))) ''alice''
         = userBackends mounted_example ''alice''
    \<and> mountPoints (snd (snd (UnmountUserBackend stuck_env [] mounted_example ''alice''))) ''alice''
         = Some ''/mnt/alice'')"
proof -
  have mp: "mountPoints mounted_example ''alice'' = Some ''/mnt/alice''"
    by (simp add: mounted_example_def)
  show ?thesis
    using UnmountUserBackend_teardown [OF mp, of calm_env "[]"]
      UnmountUserBackend_teardown [OF mp, of force_env "[]"]
      UnmountUserBackend_teardown [OF mp, of stuck_env "[]"]
    by (simp add: calm_env_def force_env_def stuck_env_def Let_def)
qed

text \<open>
  C2 as stated fails: with every \<open>umount\<close> failing, the tenant's handle and mount-point
  record are still in the registry when \<open>UnmountUserBackend\<close> returns.
\<close>

theorem UnmountUserBackend_failed_keeps_records_counterexample:
  "mountPoints mounted_example ''alice'' = Some ''/mnt/alice''
   \<and> fst (UnmountUserBackend stuck_env [] mounted_example ''alice'')
        = Some (Errorf ''failed to unmount /mnt/alice: '' (ExternalError ''exit status 32''))
   \<and> fst (snd (UnmountUserBackend stuck_env [] mounted_example ''alice''))
        = [RunCommand [''umount'', ''/mnt/alice''], RunCommand [''umount'', ''-f'', ''/mnt/alice'']]
   \<and> mountPoints (snd (snd (UnmountUserBackend stuck_env [] mounted_example ''alice''))) ''alice''
        = Some ''/mnt/alice''
   \<and> userBackends (snd (snd (UnmountUserBackend stuck_env [] mounted_example ''alice''))) ''alice''
        = Some (PosixBackend 3 ''/mnt/alice'')"
  by (simp add: UnmountUserBackend_def mounted_example_def stuck_env_def Let_def sys_def)

text \<open>
  C8.  \<open>UnmountUserBackend\<close> on a tenant without a tracked mount point returns success,
  runs nothing and leaves the manager unchanged; in particular, called again right after a
  successful \<open>UnmountUserBackend\<close> for the same tenant it returns success and changes
  nothing.
\<close>

theorem UnmountUserBackend_idempotent:
  "(mountPoints dm userID = None \<longrightarrow> UnmountUserBackend env tr dm userID = (None, tr, dm))
   \<and> (UnmountUserBackend env tr dm userID = (None, tr', dm')
        \<longrightarrow> UnmountUserBackend env tr' dm' userID = (None, tr', dm'))"
proof (intro conjI impI)
  assume "mountPoints dm userID = None"
  then show "UnmountUserBackend env tr dm userID = (None, tr, dm)"
    by (simp add: UnmountUserBackend_def)
next
  assume ok: "UnmountUserBackend env tr dm userID = (None, tr', dm')"
  have "mountPoints dm' userID = None"
    using ok
    by (auto simp: UnmountUserBackend_def Let_def sys_def split: option.splits prod.splits)
  then show "UnmountUserBackend env tr' dm' userID = (None, tr', dm')"
    by (simp add: UnmountUserBackend_def)
qed

theorem UnmountUserBackend_idempotent_witness:
  "UnmountUserBackend calm_env [] mounted_example ''alice''
     = (None, [RunCommand [''umount'', ''/mnt/alice'']],
        snd (snd (UnmountUserBackend calm_env [] mounted_example ''alice'')))
   \<and> UnmountUserBackend calm_env [RunCommand [''umount'', ''/mnt/alice'']]
        (snd (snd (UnmountUserBackend calm_env [] mounted_example ''alice''))) ''alice''
     = (None, [RunCommand [''umount'', ''/mnt/alice'']],
        snd (snd (UnmountUserBackend calm_env [] mounted_example ''alice'')))
   \<and> mountPoints (NewDynamicBackendManager example_base (example_mt ''posix'')) ''bob'' = None
   \<and> UnmountUserBackend calm_env [] (NewDynamicBackendManager example_base (example_mt ''posix'')) ''bob''
       = (None, [], NewDynamicBackendManager example_base (example_mt ''posix''))"
proof -
  have first: "UnmountUserBackend calm_env [] mounted_example ''alice''
     = (None, [RunCommand [''umount'', ''/mnt/alice'']],
        snd (snd (UnmountUserBackend calm_env [] mounted_example ''alice'')))"
    by (simp add: UnmountUserBackend_def mounted_example_def calm_env_def Let_def sys_def)
  have none: "mountPoints (NewDynamicBackendManager example_base (example_mt ''posix'')) ''bob'' = None"
    by (simp add: NewDynamicBackendManager_def)
  show ?thesis
    using first none
      UnmountUserBackend_idempotent [of mounted_example "''alice''" calm_env "[]"
        "[RunCommand [''umount'', ''/mnt/alice'']]"
        "snd (snd (UnmountUserBackend calm_env [] mounted_example ''alice''))"]
      UnmountUserBackend_idempotent [of "NewDynamicBackendManager example_base (example_mt ''posix'')"
        "''bob''" calm_env "[]"]
    by simp
qed


section \<open>The rustfs backend kind\<close>

lemma createBackendByType_rustfs:
  "ub_BackendType config = ''rustfs''
     \<Longrightarrow> createBackendByType env tr dm config
           = (Inl (ErrorsNew ''RustFS backend not implemented yet''),
              tr @ [ConstructBackend (UserID config)], dm)"
  by (simp add: createBackendByType_def createRustFSBackend_def)

text \<open>
  C10.  \<open>SetUserStorageConfig\<close> accepts a record whose backend type is \<open>rustfs\<close> and
  stores it.  \<open>createBackendByType\<close> returns an error for every such configuration, and
  for every user whose stored record has that type \<open>GetUserBackend\<close> adds no handle to
  the registry and, when it has to construct the backend, returns that error.
\<close>

theorem rustfs_accepted_never_constructed:
  "(BackendType cfg = ''rustfs'' \<longrightarrow>
       SetUserStorageConfig m userID (Some cfg)
         = (None, m \<lparr> mt_userConfigs := (mt_userConfigs m)(userID \<mapsto> cfg) \<rparr>))
   \<and> (ub_BackendType config = ''rustfs'' \<longrightarrow>
         fst (createBackendByType env tr dm config)
           = Inl (ErrorsNew ''RustFS backend not implemented yet''))
   \<and> (mt_userConfigs (multiTenantManager dm) userID = Some cfg \<and> BackendType cfg = ''rustfs''
         \<longrightarrow> userBackends (snd (snd (GetUserBackend env tr dm userID))) = userBackends dm
           \<and> (userBackends dm userID = None \<longrightarrow>
                 fst (GetUserBackend env tr dm userID)
                   = Returns (Inl (Errorf (''failed to create backend for user '' @ userID @ '': '')
                                     (ErrorsNew ''RustFS backend not implemented yet'')))))"
proof (intro conjI impI)
  assume "BackendType cfg = ''rustfs''"
  then show "SetUserStorageConfig m userID (Some cfg)
         = (None, m \<lparr> mt_userConfigs := (mt_userConfigs m)(userID \<mapsto> cfg) \<rparr>)"
    by (simp add: SetUserStorageConfig_def validBackends_def)
next
  assume "ub_BackendType config = ''rustfs''"
  then show "fst (createBackendByType env tr dm config)
           = Inl (ErrorsNew ''RustFS backend not implemented yet'')"
    by (simp add: createBackendByType_rustfs)
next
  assume a: "mt_userConfigs (multiTenantManager dm) userID = Some cfg \<and> BackendType cfg = ''rustfs''"
  show "userBackends (snd (snd (GetUserBackend env tr dm userID))) = userBackends dm"
  proof (cases "userBackends dm userID")
    case (Some b)
    then show ?thesis
      by (simp add: GetUserBackend_def updateLastAccessed_def sys_def split: option.splits prod.splits)
  next
    case None
    with a show ?thesis
      by (simp add: GetUserBackend_def createUserBackend_def GetUserStorageConfig_def
            createBackendByType_rustfs sys_def Let_def)
  qed
next
  assume a: "mt_userConfigs (multiTenantManager dm) userID = Some cfg \<and> BackendType cfg = ''rustfs''"
    and none: "userBackends dm userID = None"
  then show "fst (GetUserBackend env tr dm userID)
                   = Returns (Inl (Errorf (''failed to create backend for user '' @ userID @ '': '')
                                     (ErrorsNew ''RustFS backend not implemented yet'')))"
    by (simp add: GetUserBackend_def createUserBackend_def GetUserStorageConfig_def
          createBackendByType_rustfs sys_def Let_def)
qed

theorem rustfs_accepted_never_constructed_witness:
  "SetUserStorageConfig (example_mt ''posix'') ''alice''
       (Some \<lparr> BackendType = ''rustfs'', BackendConfig = Map.empty, StoragePath = ''/mnt/alice'',
               Quota = 0, UsedSpace = 0, Mounted = False, Metadata = Map.empty \<rparr>)
     = (None, (example_mt ''posix'') \<lparr> mt_userConfigs := mt_userConfigs (example_mt ''rustfs'') \<rparr>)
   \<and> fst (createBackendByType calm_env [] rustfs_example
        \<lparr> UserID = ''alice'', ub_BackendType = ''rustfs'', Config = Map.empty,
          MountPoint = ''/mnt/alice'', ub_Quota = 0, ub_UsedSpace = 0,
          CreatedAt = 0, LastAccessed = 0, Status = BackendStatusPending \<rparr>)
       = Inl (ErrorsNew ''RustFS backend not implemented yet'')
   \<and> userBackends (snd (snd (GetUserBackend calm_env [] rustfs_example ''alice''))) = Map.empty
   \<and> fst (GetUserBackend calm_env [] rustfs_example ''alice'')
       = Returns (Inl (Errorf ''failed to create backend for user alice: ''
                         (ErrorsNew ''RustFS backend not implemented yet'')))"
  using rustfs_accepted_never_constructed
    [where cfg = "\<lparr> BackendType = ''rustfs'', BackendConfig = Map.empty,
                    StoragePath = ''/mnt/alice'', Quota = 0, UsedSpace = 0, Mounted = False,
                    Metadata = Map.empty \<rparr>"
       and m = "example_mt ''posix''" and userID = "''alice''"
       and config = "\<lparr> UserID = ''alice'', ub_BackendType = ''rustfs'', Config = Map.empty,
          MountPoint = ''/mnt/alice'', ub_Quota = 0, ub_UsedSpace = 0,
          CreatedAt = 0, LastAccessed = 0, Status = BackendStatusPending \<rparr>"
       and dm = rustfs_example and env = calm_env and tr = "[]"]
  by (simp add: example_mt_def rustfs_example_def NewDynamicBackendManager_def)


section \<open>Parallel stripe read\<close>

lemma ReadAt_ok:
  assumes "ReadAt file len off = (data, n, None)"
  shows "0 \<le> sint off" and "data = take len (drop (nat (sint off)) (file_bytes file))"
    and "0 < len \<Longrightarrow> nat (sint off) + len \<le> length (file_bytes file)"
proof -
  have nonneg: "\<not> off <s 0" using assms by (auto simp: ReadAt_def)
  then show "0 \<le> sint off" by (simp add: word_sless_alt)
  define avail where "avail = take len (drop (nat (sint off)) (file_bytes file))"
  have full: "\<not> length avail < len" and data: "data = avail"
    using assms nonneg
    by (auto simp: ReadAt_def Let_def avail_def split: option.splits if_splits prod.splits)
  show "data = take len (drop (nat (sint off)) (file_bytes file))"
    using data by (simp add: avail_def)
  show "nat (sint off) + len \<le> length (file_bytes file)" if "0 < len"
    using full that by (simp add: avail_def min_def split: if_splits)
qed

lemma readChunk_ok:
  assumes "snd (readChunk file c) = None"
  shows "0 \<le> sint (Offset c)"
    and "fst (readChunk file c)
           = take (nat (sint (Size c))) (drop (nat (sint (Offset c))) (file_bytes file))"
    and "0 < sint (Size c) \<Longrightarrow> sint (Offset c) + sint (Size c) \<le> int (length (file_bytes file))"
proof -
  obtain data n where r: "ReadAt file (nat (sint (Size c))) (Offset c) = (data, n, None)"
    using assms(1) by (cases "ReadAt file (nat (sint (Size c))) (Offset c)")
      (auto simp: readChunk_def)
  note ok = ReadAt_ok [OF r]
  show "0 \<le> sint (Offset c)" by (rule ok(1))
  show "fst (readChunk file c)
           = take (nat (sint (Size c))) (drop (nat (sint (Offset c))) (file_bytes file))"
    using r ok(2) by (simp add: readChunk_def)
  show "sint (Offset c) + sint (Size c) \<le> int (length (file_bytes file))" if "0 < sint (Size c)"
  proof -
    have "nat (sint (Offset c)) + nat (sint (Size c)) \<le> length (file_bytes file)"
      using ok(3) that by simp
    with ok(1) that show ?thesis by linarith
  qed
qed

lemma signed_take_bit_63_wrap:
  fixes x :: int
  assumes "9223372036854775808 \<le> x" and "x < 18446744073709551616"
  shows "signed_take_bit 63 x = x - 18446744073709551616"
proof -
  define y where "y = x - 9223372036854775808"
  have y: "0 \<le> y" "y < 18446744073709551616" using assms by (simp_all add: y_def)
  have "x + 9223372036854775808 = y + 18446744073709551616" by (simp add: y_def)
  then have "(x + 9223372036854775808) mod 18446744073709551616
               = (y + 18446744073709551616) mod 18446744073709551616"
    by (rule arg_cong)
  also have "\<dots> = y mod 18446744073709551616" by (rule mod_add_self2)
  also have "\<dots> = y" using y by (rule mod_pos_pos_trivial)
  finally have m: "(x + 9223372036854775808) mod 18446744073709551616 = y" .
  have "signed_take_bit 63 x = take_bit 64 (x + 2 ^ 63) - 2 ^ 63"
    by (simp add: signed_take_bit_eq_take_bit_shift)
  also have "take_bit 64 (x + 2 ^ 63) = (x + 9223372036854775808) mod 18446744073709551616"
    by (simp add: take_bit_eq_mod)
  finally show ?thesis using m by (simp add: y_def)
qed

lemma sint_add_nonneg_int64:
  assumes "0 \<le> sint a" and "0 \<le> sint b" and "0 \<le> sint (a + b :: int64)"
  shows "sint (a + b) = sint a + sint b"
proof (cases "sint a + sint b < 2 ^ 63")
  case True
  with assms show ?thesis by (intro sint_add_int64) simp_all
next
  case False
  then have big: "9223372036854775808 \<le> sint a + sint b" by simp
  have lt: "sint a + sint b < 18446744073709551616"
    using sint_int64_bounds(2) [of a] sint_int64_bounds(2) [of b] by simp
  have "sint (a + b) = signed_take_bit 63 (sint a + sint b)"
    by (simp add: sint_word_ariths)
  also have "\<dots> = sint a + sint b - 18446744073709551616"
    using big lt by (rule signed_take_bit_63_wrap)
  finally have "sint (a + b) < 0" using lt by simp
  with assms(3) show ?thesis by simp
qed


lemma chunkSize_facts:
  assumes "0 \<le> sint cur" and "0 < sint rem" and "0 < sint ss"
  defines "cs \<equiv> (if rem <s ss - go_rem cur ss then rem else ss - go_rem cur ss)"
  shows "0 < sint cs" and "sint cs \<le> sint rem"
    and "sint cs \<le> sint ss - sint cur mod sint ss"
    and "sint (rem - cs) = sint rem - sint cs"
proof -
  have so: "sint (go_rem cur ss) = sint cur mod sint ss"
    using assms(1,3) by (rule sint_go_rem)
  have so_bounds: "0 \<le> sint (go_rem cur ss)" "sint (go_rem cur ss) < sint ss"
    using assms(3) by (simp_all add: so)
  have c0: "sint (ss - go_rem cur ss) = sint ss - sint (go_rem cur ss)"
    using so_bounds sint_int64_bounds [of ss] by (intro sint_sub_int64) linarith+
  have cs: "sint cs = min (sint rem) (sint (ss - go_rem cur ss))"
    by (simp add: cs_def word_sless_alt min_def)
  show "0 < sint cs" "sint cs \<le> sint rem" "sint cs \<le> sint ss - sint cur mod sint ss"
    using assms(2) so_bounds by (simp_all add: cs c0 so)
  then show "sint (rem - cs) = sint rem - sint cs"
    using sint_int64_bounds [of rem] by (intro sint_sub_int64) linarith+
qed

lemma take_drop_split:
  fixes xs :: "'a list"
  assumes "0 \<le> a" "0 \<le> b" "0 \<le> (c::int)"
  shows "take (nat (b + c)) (drop (nat a) xs)
           = take (nat b) (drop (nat a) xs) @ take (nat c) (drop (nat (a + b)) xs)"
proof -
  have "nat (b + c) = nat b + nat c" "nat (a + b) = nat a + nat b"
    using assms by (simp_all add: nat_add_distrib)
  then show ?thesis
    by (simp add: take_add add.commute)
qed

lemma stripeChunksLoop_reads:
  assumes "stripeChunksLoop ss sc cur rem acc = Some y"
  shows "reads_cover file ss cur rem acc y"
proof (rule stripeChunksLoop.raw_induct [OF _ assms, where P = "\<lambda>ss sc. reads_cover file ss"],
    goal_cases)
  case (1 loop ss sc cur rem acc y)
  note IH0 = 1(1) and body = 1(2)
  show ?case unfolding reads_cover_def
  proof (intro impI)
    assume ss_pos: "0 < sint ss"
  show "\<forall>chunks. y = Returns chunks \<longrightarrow>
           (\<exists>new. chunks = acc @ new
              \<and> (reads_ok file new \<longrightarrow>
                   concat (map (\<lambda>c. fst (readChunk file c)) new)
                     = take (nat (sint rem)) (drop (nat (sint cur)) (file_bytes file))
                   \<and> (0 <s rem \<longrightarrow> 0 \<le> sint cur
                         \<and> sint cur + sint rem \<le> int (length (file_bytes file)))))"
  proof (cases "0 <s rem")
    case False
    then have "sint rem \<le> 0" by (simp add: word_sless_alt)
    with False body show ?thesis by (auto simp: reads_ok_def)
  next
    case True
    then have rem_pos: "0 < sint rem" by (simp add: word_sless_alt)
    have ss_nz: "ss \<noteq> 0" using ss_pos by auto
    show ?thesis
    proof (cases "sc = 0")
      case True
      with \<open>0 <s rem\<close> body show ?thesis by auto
    next
      case False
      define cs where "cs = (if rem <s ss - go_rem cur ss then rem else ss - go_rem cur ss)"
      define ch where "ch = \<lparr> Offset = cur, Size = cs, Stripe = go_rem (go_quo cur ss) sc \<rparr>"
      have rec: "loop ss sc (cur + cs) (rem - cs) (acc @ [ch]) = Some y"
        using body \<open>0 <s rem\<close> ss_nz False by (simp add: Let_def cs_def ch_def)
      note IH = IH0 [OF rec, unfolded reads_cover_def, rule_format, OF ss_pos]
      show ?thesis
      proof (intro allI impI)
        fix chunks assume "y = Returns chunks"
        with IH [of chunks] obtain new' where new': "chunks = (acc @ [ch]) @ new'"
          and rest: "reads_ok file new' \<Longrightarrow>
                   concat (map (\<lambda>c. fst (readChunk file c)) new')
                     = take (nat (sint (rem - cs))) (drop (nat (sint (cur + cs))) (file_bytes file))
                   \<and> (0 <s rem - cs \<longrightarrow> 0 \<le> sint (cur + cs)
                         \<and> sint (cur + cs) + sint (rem - cs) \<le> int (length (file_bytes file)))"
          by blast
        have "reads_ok file (ch # new') \<longrightarrow>
                   concat (map (\<lambda>c. fst (readChunk file c)) (ch # new'))
                     = take (nat (sint rem)) (drop (nat (sint cur)) (file_bytes file))
                   \<and> (0 <s rem \<longrightarrow> 0 \<le> sint cur
                         \<and> sint cur + sint rem \<le> int (length (file_bytes file)))"
        proof
          assume ok: "reads_ok file (ch # new')"
          then have ch_ok: "snd (readChunk file ch) = None" and new_ok: "reads_ok file new'"
            by (simp_all add: reads_ok_def)
          have cur0: "0 \<le> sint cur"
            using readChunk_ok(1) [OF ch_ok] by (simp add: ch_def)
          note facts = chunkSize_facts [OF cur0 rem_pos ss_pos, folded cs_def]
          have data: "fst (readChunk file ch)
                = take (nat (sint cs)) (drop (nat (sint cur)) (file_bytes file))"
            using readChunk_ok(2) [OF ch_ok] by (simp add: ch_def)
          have bound: "sint cur + sint cs \<le> int (length (file_bytes file))"
            using readChunk_ok(3) [OF ch_ok] facts(1) by (simp add: ch_def)
          note r = rest [OF new_ok]
          show "concat (map (\<lambda>c. fst (readChunk file c)) (ch # new'))
                     = take (nat (sint rem)) (drop (nat (sint cur)) (file_bytes file))
                   \<and> (0 <s rem \<longrightarrow> 0 \<le> sint cur
                         \<and> sint cur + sint rem \<le> int (length (file_bytes file)))"
          proof (cases "sint cs = sint rem")
            case True
            then have "nat (sint (rem - cs)) = 0" by (simp add: facts(4))
            with r have "concat (map (\<lambda>c. fst (readChunk file c)) new') = []" by simp
            with True data bound cur0 show ?thesis by simp
          next
            case False
            with facts(2) have lt: "sint cs < sint rem" by simp
            then have "0 <s rem - cs" by (simp add: word_sless_alt facts(4))
            with r have cur'0: "0 \<le> sint (cur + cs)"
              and b': "sint (cur + cs) + sint (rem - cs) \<le> int (length (file_bytes file))"
              by simp_all
            have cur': "sint (cur + cs) = sint cur + sint cs"
              using cur0 facts(1) cur'0 by (intro sint_add_nonneg_int64) simp_all
            have "take (nat (sint cs + (sint rem - sint cs))) (drop (nat (sint cur)) (file_bytes file))
                  = take (nat (sint cs)) (drop (nat (sint cur)) (file_bytes file))
                     @ take (nat (sint rem - sint cs)) (drop (nat (sint cur + sint cs)) (file_bytes file))"
              using cur0 facts(1) lt by (intro take_drop_split) simp_all
            then have "take (nat (sint rem)) (drop (nat (sint cur)) (file_bytes file))
                  = fst (readChunk file ch) @ concat (map (\<lambda>c. fst (readChunk file c)) new')"
              using r data by (simp add: cur' facts(4))
            with b' cur0 show ?thesis by (simp add: cur' facts(4))
          qed
        qed
        with new' show "\<exists>new. chunks = acc @ new
              \<and> (reads_ok file new \<longrightarrow>
                   concat (map (\<lambda>c. fst (readChunk file c)) new)
                     = take (nat (sint rem)) (drop (nat (sint cur)) (file_bytes file))
                   \<and> (0 <s rem \<longrightarrow> 0 \<le> sint cur
                         \<and> sint cur + sint rem \<le> int (length (file_bytes file))))"
          by (intro exI [of _ "ch # new'"]) simp
      qed
    qed
  qed
  qed
qed


lemma stripeWorker_foldl:
  assumes "length rs = length chunks" and "length es = length chunks"
  shows "foldl (stripeWorker file chunks) (rs, es) sched
     = (map (\<lambda>i. if i \<in> set sched then Some (fst (readChunk file (chunks ! i))) else rs ! i)
          [0..<length chunks],
        map (\<lambda>i. if i \<in> set sched then snd (readChunk file (chunks ! i)) else es ! i)
          [0..<length chunks])"
  using assms
proof (induction sched arbitrary: rs es)
  case Nil
  have "map ((!) rs) [0..<length chunks] = rs" "map ((!) es) [0..<length chunks] = es"
    using map_nth [of rs] map_nth [of es] Nil by simp_all
  then show ?case by simp
next
  case (Cons x xs)
  show ?case
  proof (cases "x < length chunks")
    case False
    then have "stripeWorker file chunks (rs, es) x = (rs, es)"
      by (simp add: stripeWorker_def)
    with False Cons show ?thesis by (auto intro!: map_cong)
  next
    case True
    obtain d e where r: "readChunk file (chunks ! x) = (d, e)"
      by (cases "readChunk file (chunks ! x)")
    have step: "stripeWorker file chunks (rs, es) x = (rs[x := Some d], es[x := e])"
      using True r by (simp add: stripeWorker_def)
    have "foldl (stripeWorker file chunks) (rs, es) (x # xs)
            = foldl (stripeWorker file chunks) (rs[x := Some d], es[x := e]) xs"
      by (simp add: step)
    also have "\<dots> = (map (\<lambda>i. if i \<in> set xs then Some (fst (readChunk file (chunks ! i)))
                                else rs[x := Some d] ! i) [0..<length chunks],
                       map (\<lambda>i. if i \<in> set xs then snd (readChunk file (chunks ! i))
                                else es[x := e] ! i) [0..<length chunks])"
      using Cons.prems by (intro Cons.IH) simp_all
    also have "\<dots> = (map (\<lambda>i. if i \<in> set (x # xs) then Some (fst (readChunk file (chunks ! i)))
                                else rs ! i) [0..<length chunks],
                       map (\<lambda>i. if i \<in> set (x # xs) then snd (readChunk file (chunks ! i))
                                else es ! i) [0..<length chunks])"
      using Cons.prems True r by (auto intro!: map_cong simp: nth_list_update)
    finally show ?thesis .
  qed
qed

lemma map_nth_upt:
  "map (\<lambda>i. f (xs ! i)) [0..<length xs] = map f xs"
  by (rule nth_equalityI) simp_all

lemma stripeWorkers_all:
  assumes "set sched = {0..<length chunks}"
  shows "foldl (stripeWorker file chunks)
           (replicate (length chunks) None, replicate (length chunks) None) sched
         = (map (\<lambda>c. Some (fst (readChunk file c))) chunks,
            map (\<lambda>c. snd (readChunk file c)) chunks)"
proof -
  have A: "map (\<lambda>i. if i \<in> set sched then Some (fst (readChunk file (chunks ! i)))
                  else replicate (length chunks) None ! i) [0..<length chunks]
          = map (\<lambda>c. Some (fst (readChunk file c))) chunks" (is "?l = ?r")
  proof -
    have "?l = map (\<lambda>i. Some (fst (readChunk file (chunks ! i)))) [0..<length chunks]"
      using assms by (intro map_cong) auto
    also have "\<dots> = ?r" by (rule map_nth_upt)
    finally show ?thesis .
  qed
  have B: "map (\<lambda>i. if i \<in> set sched then snd (readChunk file (chunks ! i))
                  else replicate (length chunks) None ! i) [0..<length chunks]
          = map (\<lambda>c. snd (readChunk file c)) chunks" (is "?l = ?r")
  proof -
    have "?l = map (\<lambda>i. snd (readChunk file (chunks ! i))) [0..<length chunks]"
      using assms by (intro map_cong) auto
    also have "\<dots> = ?r" by (rule map_nth_upt)
    finally show ?thesis .
  qed
  have "foldl (stripeWorker file chunks)
           (replicate (length chunks) None, replicate (length chunks) None) sched
        = (map (\<lambda>i. if i \<in> set sched then Some (fst (readChunk file (chunks ! i)))
                  else replicate (length chunks) None ! i) [0..<length chunks],
           map (\<lambda>i. if i \<in> set sched then snd (readChunk file (chunks ! i))
                  else replicate (length chunks) None ! i) [0..<length chunks])"
    by (rule stripeWorker_foldl) simp_all
  then show ?thesis by (simp only: A B)
qed

text \<open>The outcome of the striped path in terms of the per-chunk reads.\<close>

lemma parallelReadStripes_striped:
  assumes "\<not> StripeCount stripeInfo \<le>s 1"
    and "calculateStripeChunks offset sz stripeInfo = Some (Returns chunks)"
    and "set sched = {0..<length chunks}"
  shows "parallelReadStripes sched fl offset sz stripeInfo =
     (if list_ex (\<lambda>c. Size c <s 0) chunks then Some (Panics MakeSliceLenOutOfRange)
      else case find (\<lambda>err. err \<noteq> None) (map (\<lambda>c. snd (readChunk fl c)) chunks) of
             Some err \<Rightarrow> Some (Returns (None, err))
           | None \<Rightarrow>
               if foldl (\<lambda>t c. t + Size c) 0 chunks <s 0 then Some (Panics MakeSliceCapOutOfRange)
               else Some (Returns (Some (concat (map (\<lambda>c. fst (readChunk fl c)) chunks)), None)))"
  using assms
  by (simp add: parallelReadStripes_def stripeWorkers_all Let_def comp_def split: option.splits)

lemma perm_upt_set:
  assumes "mset sched = mset [0..<n]"
  shows "set sched = {0..<n}"
proof -
  have "set sched = set [0..<n]" using assms by (rule mset_eq_setD)
  then show ?thesis by simp
qed

lemma parallelReadStripes_striped_chunks:
  assumes "\<not> StripeCount stripeInfo \<le>s 1"
    and "parallelReadStripes sched fl offset sz stripeInfo = Some (Returns r)"
  shows "\<exists>chunks. calculateStripeChunks offset sz stripeInfo = Some (Returns chunks)"
proof (cases "calculateStripeChunks offset sz stripeInfo")
  case None
  with assms show ?thesis by (simp add: parallelReadStripes_def)
next
  case (Some y)
  show ?thesis
  proof (cases y)
    case (Returns chunks)
    with Some show ?thesis by simp
  next
    case (Panics p)
    with Some assms show ?thesis by (simp add: parallelReadStripes_def)
  qed
qed

lemma ReadAt_full:
  assumes "0 \<le> sint off" and "read_fault fl off len = None"
    and "len = 0 \<or> nat (sint off) + len \<le> length (file_bytes fl)"
  shows "ReadAt fl len off = (take len (drop (nat (sint off)) (file_bytes fl)), len, None)"
proof -
  have "length (take len (drop (nat (sint off)) (file_bytes fl))) = len"
    using assms(3) by auto
  then show ?thesis
    using assms(1,2) by (simp add: ReadAt_def Let_def word_sless_alt)
qed

lemma directRead_ok:
  assumes "directRead fl offset sz = Returns (Some data, None)"
  shows "data = byte_range fl offset sz"
proof -
  have nonneg: "\<not> sz <s 0"
    using assms by (cases "sz <s 0") (simp_all add: directRead_def)
  obtain d n e where r: "ReadAt fl (nat (sint sz)) offset = (d, n, e)"
    by (cases "ReadAt fl (nat (sint sz)) offset")
  with assms nonneg have "d = data" "e = None" by (simp_all add: directRead_def)
  with r have "ReadAt fl (nat (sint sz)) offset = (data, n, None)" by simp
  from ReadAt_ok(2) [OF this] show ?thesis by (simp add: byte_range_def)
qed

lemma striped_success:
  assumes eq: "(if list_ex (\<lambda>c. Size c <s 0) chunks then Some (Panics MakeSliceLenOutOfRange)
      else case find (\<lambda>err. err \<noteq> None) (map (\<lambda>c. snd (readChunk fl c)) chunks) of
             Some err \<Rightarrow> Some (Returns (None, err))
           | None \<Rightarrow>
               if foldl (\<lambda>t c. t + Size c) 0 chunks <s 0 then Some (Panics MakeSliceCapOutOfRange)
               else Some (Returns (Some (concat (map (\<lambda>c. fst (readChunk fl c)) chunks)), None)))
        = Some (Returns (Some bytes, None))"
  shows "reads_ok fl chunks" and "bytes = concat (map (\<lambda>c. fst (readChunk fl c)) chunks)"
proof -
  have nonneg: "\<not> list_ex (\<lambda>c. Size c <s 0) chunks"
    using eq by (cases "list_ex (\<lambda>c. Size c <s 0) chunks") simp_all
  have noerr: "find (\<lambda>err. err \<noteq> None) (map (\<lambda>c. snd (readChunk fl c)) chunks) = None"
    using eq nonneg
    by (cases "find (\<lambda>err. err \<noteq> None) (map (\<lambda>c. snd (readChunk fl c)) chunks)") simp_all
  have "\<forall>c \<in> set chunks. snd (readChunk fl c) = None"
    using noerr unfolding find_None_iff by simp
  moreover have "\<forall>c \<in> set chunks. \<not> Size c <s 0"
    using nonneg unfolding list_ex_iff by simp
  ultimately show "reads_ok fl chunks" by (simp add: reads_ok_def list_all_iff)
  show "bytes = concat (map (\<lambda>c. fst (readChunk fl c)) chunks)"
    using eq nonneg noerr
    by (cases "foldl (\<lambda>t c. t + Size c) 0 chunks <s 0") simp_all
qed

lemma two_stripes_chunks:
  "calculateStripeChunks 5 10 two_stripes
     = Some (Returns [\<lparr> Offset = 5, Size = 3, Stripe = 1 \<rparr>,
                      \<lparr> Offset = 8, Size = 4, Stripe = 0 \<rparr>,
                      \<lparr> Offset = 12, Size = 3, Stripe = 1 \<rparr>])"
  unfolding two_stripes_def by (rule calculateStripeChunks_example)

lemma upt_3: "[0..<3] = [0, 1, 2]"
  by (simp add: upt_rec)

lemma two_stripes_sched:
  "mset [2, 0, 1] = mset [0..<length [\<lparr> Offset = 5, Size = 3, Stripe = 1 \<rparr>,
                      \<lparr> Offset = 8, Size = 4, Stripe = 0 \<rparr>,
                      \<lparr> Offset = 12 :: int64, Size = 3, Stripe = 1 \<rparr>]]"
proof -
  have "mset [2, 0, 1 :: nat] = mset [0..<3]" unfolding upt_3 by simp
  moreover have "length [\<lparr> Offset = 5, Size = 3, Stripe = 1 \<rparr>,
                      \<lparr> Offset = 8, Size = 4, Stripe = 0 \<rparr>,
                      \<lparr> Offset = 12 :: int64, Size = 3, Stripe = 1 \<rparr>] = 3" by simp
  ultimately show ?thesis by (simp only:)
qed

lemma digits_direct:
  "parallelReadStripes [] digits_file 5 10 one_stripe
     = Some (Returns (Some [5, 6, 7, 8, 9, 10, 11, 12, 13, 14], None))"
  by (simp add: parallelReadStripes_def one_stripe_def directRead_def ReadAt_def digits_file_def
        word_sle_eq word_sless_alt Let_def)

lemma digits_read:
  "parallelReadStripes [2, 0, 1] digits_file 5 10 two_stripes
     = Some (Returns (Some [5, 6, 7, 8, 9, 10, 11, 12, 13, 14], None))"
proof -
  have "\<not> StripeCount two_stripes \<le>s 1" by (simp add: two_stripes_def word_sle_eq)
  moreover have "set [2, 0, 1 :: nat] = {0..<length [\<lparr> Offset = 5, Size = 3, Stripe = 1 \<rparr>,
                      \<lparr> Offset = 8, Size = 4, Stripe = 0 \<rparr>,
                      \<lparr> Offset = 12 :: int64, Size = 3, Stripe = 1 \<rparr>]}"
    using two_stripes_sched by (rule perm_upt_set)
  ultimately show ?thesis
    by (subst parallelReadStripes_striped [OF _ two_stripes_chunks])
       (simp_all add: readChunk_def ReadAt_def digits_file_def word_sless_alt Let_def)
qed

text \<open>
  C5.  Whenever \<open>parallelReadStripes\<close> succeeds (with a positive stripe size when the
  file is striped, and every goroutine having run), the bytes it returns are the bytes of
  the file in \<open>[offset, offset + size)\<close>.  With a stripe count of at most 1 the call is
  the single direct read.  Every successful direct read of the range returns the same
  bytes, a direct read of a non-negative range that meets no fault does succeed with
  them, and the result does not depend on the order in which the chunk reads finish.
\<close>

theorem parallelReadStripes_matches_direct_read:
  assumes ok: "parallelReadStripes sched file offset sz stripeInfo = Some (Returns (Some bytes, None))"
    and striped: "1 <s StripeCount stripeInfo \<longrightarrow> 0 <s StripeSize stripeInfo
          \<and> (\<forall>chunks. calculateStripeChunks offset sz stripeInfo = Some (Returns chunks)
                \<longrightarrow> mset sched = mset [0..<length chunks])"
  shows "bytes = byte_range file offset sz
     \<and> (StripeCount stripeInfo \<le>s 1 \<longrightarrow>
          parallelReadStripes sched file offset sz stripeInfo = Some (directRead file offset sz))
     \<and> (\<forall>data. directRead file offset sz = Returns (Some data, None) \<longrightarrow> data = bytes)
     \<and> (0 \<le>s offset \<and> 0 \<le>s sz \<and> read_fault file offset (nat (sint sz)) = None
          \<longrightarrow> directRead file offset sz = Returns (Some bytes, None))
     \<and> (\<forall>sched'. mset sched' = mset sched \<longrightarrow>
          parallelReadStripes sched' file offset sz stripeInfo
            = parallelReadStripes sched file offset sz stripeInfo)"
proof -
  have range: "bytes = byte_range file offset sz"
  proof (cases "StripeCount stripeInfo \<le>s 1")
    case True
    with ok have "directRead file offset sz = Returns (Some bytes, None)"
      by (simp add: parallelReadStripes_def)
    then show ?thesis by (rule directRead_ok)
  next
    case False
    then have many: "1 <s StripeCount stripeInfo"
      by (simp add: word_sle_eq word_sless_alt)
    with striped have ss: "0 < sint (StripeSize stripeInfo)" by (simp add: word_sless_alt)
    from parallelReadStripes_striped_chunks [OF False ok] obtain chunks where
      chunks: "calculateStripeChunks offset sz stripeInfo = Some (Returns chunks)" ..
    with striped many have "mset sched = mset [0..<length chunks]" by blast
    then have sched: "set sched = {0..<length chunks}" by (rule perm_upt_set)
    note eq = ok [unfolded parallelReadStripes_striped [OF False chunks sched, where fl = "file"]]
    note s = striped_success [OF eq]
    have "reads_cover file (StripeSize stripeInfo) offset sz [] (Returns chunks)"
      using chunks by (intro stripeChunksLoop_reads) (simp add: calculateStripeChunks_def)
    then have "concat (map (\<lambda>c. fst (readChunk file c)) chunks)
           = take (nat (sint sz)) (drop (nat (sint offset)) (file_bytes file))"
      using ss s(1) by (simp add: reads_cover_def)
    with s(2) show ?thesis by (simp add: byte_range_def)
  qed
  have direct: "\<forall>data. directRead file offset sz = Returns (Some data, None) \<longrightarrow> data = bytes"
    using directRead_ok [of "file" offset sz] range by blast
  have indep: "\<forall>sched'. mset sched' = mset sched \<longrightarrow>
          parallelReadStripes sched' file offset sz stripeInfo
            = parallelReadStripes sched file offset sz stripeInfo"
  proof (intro allI impI)
    fix sched' assume perm: "mset sched' = mset sched"
    show "parallelReadStripes sched' file offset sz stripeInfo
            = parallelReadStripes sched file offset sz stripeInfo"
    proof (cases "StripeCount stripeInfo \<le>s 1")
      case True
      then show ?thesis by (simp add: parallelReadStripes_def)
    next
      case False
      then have many: "1 <s StripeCount stripeInfo"
        by (simp add: word_sle_eq word_sless_alt)
      from parallelReadStripes_striped_chunks [OF False ok] obtain chunks where
        chunks: "calculateStripeChunks offset sz stripeInfo = Some (Returns chunks)" ..
      with striped many have p: "mset sched = mset [0..<length chunks]" by blast
      then have a: "set sched = {0..<length chunks}" by (rule perm_upt_set)
      from p perm have "mset sched' = mset [0..<length chunks]" by simp
      then have b: "set sched' = {0..<length chunks}" by (rule perm_upt_set)
      show ?thesis
        by (simp only: parallelReadStripes_striped [OF False chunks a]
              parallelReadStripes_striped [OF False chunks b])
    qed
  qed
  have single: "StripeCount stripeInfo \<le>s 1 \<longrightarrow>
          parallelReadStripes sched file offset sz stripeInfo = Some (directRead file offset sz)"
    by (simp add: parallelReadStripes_def)
  have would: "0 \<le>s offset \<and> 0 \<le>s sz \<and> read_fault file offset (nat (sint sz)) = None
          \<longrightarrow> directRead file offset sz = Returns (Some bytes, None)"
  proof (cases "StripeCount stripeInfo \<le>s 1")
    case True
    with ok show ?thesis by (simp add: parallelReadStripes_def)
  next
    case False
    then have many: "1 <s StripeCount stripeInfo"
      by (simp add: word_sle_eq word_sless_alt)
    with striped have ss: "0 < sint (StripeSize stripeInfo)" by (simp add: word_sless_alt)
    from parallelReadStripes_striped_chunks [OF False ok] obtain chunks where
      chunks: "calculateStripeChunks offset sz stripeInfo = Some (Returns chunks)" ..
    with striped many have "mset sched = mset [0..<length chunks]" by blast
    then have sched: "set sched = {0..<length chunks}" by (rule perm_upt_set)
    note eq = ok [unfolded parallelReadStripes_striped [OF False chunks sched, where fl = "file"]]
    note s = striped_success [OF eq]
    have "reads_cover file (StripeSize stripeInfo) offset sz [] (Returns chunks)"
      using chunks by (intro stripeChunksLoop_reads) (simp add: calculateStripeChunks_def)
    then have inside: "0 <s sz \<longrightarrow> sint offset + sint sz \<le> int (length (file_bytes file))"
      using ss s(1) by (simp add: reads_cover_def)
    show ?thesis
    proof (intro impI, elim conjE)
      assume a: "0 \<le>s offset" "0 \<le>s sz" "read_fault file offset (nat (sint sz)) = None"
      then have nn: "0 \<le> sint offset" "0 \<le> sint sz" by (simp_all add: word_sle_eq)
      have "nat (sint sz) = 0 \<or> nat (sint offset) + nat (sint sz) \<le> length (file_bytes file)"
      proof (cases "0 < sint sz")
        case True
        with inside have "sint offset + sint sz \<le> int (length (file_bytes file))"
          by (simp add: word_sless_alt)
        then have "nat (sint offset + sint sz) \<le> length (file_bytes file)" by simp
        then show ?thesis using nn by (simp add: nat_add_distrib)
      next
        case False
        with nn show ?thesis by simp
      qed
      then show "directRead file offset sz = Returns (Some bytes, None)"
        using a(3) nn range
        by (auto simp: ReadAt_full directRead_def byte_range_def word_sless_alt)
    qed
  qed
  from range single direct would indep show ?thesis by (intro conjI)
qed

theorem parallelReadStripes_matches_direct_read_witness:
  "parallelReadStripes [2, 0, 1] digits_file 5 10 two_stripes
       = Some (Returns (Some [5, 6, 7, 8, 9, 10, 11, 12, 13, 14], None))
   \<and> byte_range digits_file 5 10 = [5, 6, 7, 8, 9, 10, 11, 12, 13, 14]
   \<and> directRead digits_file 5 10 = Returns (Some [5, 6, 7, 8, 9, 10, 11, 12, 13, 14], None)
   \<and> parallelReadStripes [0, 1, 2] digits_file 5 10 two_stripes
       = parallelReadStripes [2, 0, 1] digits_file 5 10 two_stripes
   \<and> parallelReadStripes [] digits_file 5 10 one_stripe = Some (directRead digits_file 5 10)"
proof -
  have unstriped: "1 <s StripeCount one_stripe \<longrightarrow> 0 <s StripeSize one_stripe
          \<and> (\<forall>chunks. calculateStripeChunks 5 10 one_stripe = Some (Returns chunks)
                \<longrightarrow> mset [] = mset [0..<length chunks])"
    by (simp add: one_stripe_def word_sless_alt)
  have single: "StripeCount one_stripe \<le>s 1" by (simp add: one_stripe_def word_sle_eq)
  have one: "parallelReadStripes [] digits_file 5 10 one_stripe
               = Some (directRead digits_file 5 10)"
    using parallelReadStripes_matches_direct_read
        [OF digits_direct unstriped, THEN conjunct2, THEN conjunct1]
      single by (rule mp)
  have striped: "1 <s StripeCount two_stripes \<longrightarrow> 0 <s StripeSize two_stripes
          \<and> (\<forall>chunks. calculateStripeChunks 5 10 two_stripes = Some (Returns chunks)
                \<longrightarrow> mset [2, 0, 1] = mset [0..<length chunks])"
  proof (intro impI conjI allI)
    show "0 <s StripeSize two_stripes" by (simp add: two_stripes_def word_sless_alt)
  next
    fix chunks assume "calculateStripeChunks 5 10 two_stripes = Some (Returns chunks)"
    then have "chunks = [\<lparr> Offset = 5, Size = 3, Stripe = 1 \<rparr>,
                      \<lparr> Offset = 8, Size = 4, Stripe = 0 \<rparr>,
                      \<lparr> Offset = 12, Size = 3, Stripe = 1 \<rparr>]"
      by (simp add: two_stripes_chunks)
    then show "mset [2, 0, 1] = mset [0..<length chunks]"
      using two_stripes_sched by (simp only:)
  qed
  note t = parallelReadStripes_matches_direct_read [OF digits_read striped]
  have pre: "0 \<le>s (5 :: int64) \<and> 0 \<le>s (10 :: int64)
          \<and> read_fault digits_file 5 (nat (sint (10 :: int64))) = None"
    by (simp add: digits_file_def word_sle_eq)
  have perm: "mset [0, 1, 2 :: nat] = mset [2, 0, 1]" by simp
  have "byte_range digits_file 5 10 = [5, 6, 7, 8, 9, 10, 11, 12, 13, 14]"
    using t [THEN conjunct1] by (rule sym)
  moreover have "directRead digits_file 5 10
      = Returns (Some [5, 6, 7, 8, 9, 10, 11, 12, 13, 14], None)"
    using t [THEN conjunct2, THEN conjunct2, THEN conjunct2, THEN conjunct1] pre by (rule mp)
  moreover have "parallelReadStripes [0, 1, 2] digits_file 5 10 two_stripes
       = parallelReadStripes [2, 0, 1] digits_file 5 10 two_stripes"
    using t [THEN conjunct2, THEN conjunct2, THEN conjunct2, THEN conjunct2, THEN spec, of "[0, 1, 2]"]
      perm by (rule mp)
  ultimately show ?thesis using digits_read one by (intro conjI)
qed

lemma find_first:
  assumes "i < length xs" and "P (xs ! i)" and "\<forall>j<i. \<not> P (xs ! j)"
  shows "find P xs = Some (xs ! i)"
  unfolding find_Some_iff using assms by blast

text \<open>
  C6.  In the striped path, when the chunk with index \<open>i\<close> fails with error \<open>e\<close> and
  no chunk before it fails, the call returns a nil slice together with \<open>e\<close>, whatever
  the order in which the chunk reads finish and whatever later chunks did.
\<close>

theorem parallelReadStripes_first_error:
  assumes "1 <s StripeCount stripeInfo"
    and "calculateStripeChunks offset sz stripeInfo = Some (Returns chunks)"
    and "\<forall>c \<in> set chunks. \<not> Size c <s 0"
    and "mset sched = mset [0..<length chunks]"
    and "i < length chunks"
    and "snd (readChunk file (chunks ! i)) = Some e"
    and "\<forall>j<i. snd (readChunk file (chunks ! j)) = None"
  shows "parallelReadStripes sched file offset sz stripeInfo = Some (Returns (None, Some e))"
proof -
  have striped: "\<not> StripeCount stripeInfo \<le>s 1"
    using assms(1) by (simp add: word_sle_eq word_sless_alt)
  have sched: "set sched = {0..<length chunks}" using assms(4) by (rule perm_upt_set)
  have "find (\<lambda>err. err \<noteq> None) (map (\<lambda>c. snd (readChunk file c)) chunks)
          = Some (map (\<lambda>c. snd (readChunk file c)) chunks ! i)"
    using assms(5,6,7) by (intro find_first) simp_all
  then have "find (\<lambda>err. err \<noteq> None) (map (\<lambda>c. snd (readChunk file c)) chunks) = Some (Some e)"
    using assms(5,6) by simp
  moreover have "\<not> list_ex (\<lambda>c. Size c <s 0) chunks"
    using assms(3) by (simp add: list_ex_iff)
  ultimately show ?thesis
    by (simp add: parallelReadStripes_striped [OF striped assms(2) sched, where fl = "file"])
qed


lemma faulty_chunks_reads:
  "snd (readChunk faulty_file \<lparr> Offset = 5, Size = 3, Stripe = 1 \<rparr>) = None"
  "snd (readChunk faulty_file \<lparr> Offset = 8, Size = 4, Stripe = 0 \<rparr>)
     = Some (ExternalError ''input/output error'')"
  "snd (readChunk faulty_file \<lparr> Offset = 12, Size = 3, Stripe = 1 \<rparr>) = Some io_EOF"
  by (simp_all add: readChunk_def ReadAt_def faulty_file_def word_sless_alt Let_def)

theorem parallelReadStripes_first_error_witness:
  "parallelReadStripes [2, 0, 1] faulty_file 5 10 two_stripes
     = Some (Returns (None, Some (ExternalError ''input/output error'')))"
proof -
  have "1 <s StripeCount two_stripes" by (simp add: two_stripes_def word_sless_alt)
  then show ?thesis
    by (rule parallelReadStripes_first_error [OF _ two_stripes_chunks _ two_stripes_sched, where i = 1])
       (simp_all add: faulty_chunks_reads word_sless_alt)
qed


section \<open>Two callers racing for one backend\<close>

text \<open>One caller running alone takes the two steps of \<open>GetUserBackend\<close>.\<close>

lemma GetUserBackend_two_steps:
  "GetUserBackend env tr dm userID =
     (case caller_step env userID AtLookup tr dm of
        (st, tr1, dm1) \<Rightarrow>
          (case caller_step env userID st tr1 dm1 of
             (Done res, tr2, dm2) \<Rightarrow> (res, tr2, dm2)
           | (_, tr2, dm2) \<Rightarrow> (Panics NilDereference, tr2, dm2)))"
  by (simp add: GetUserBackend_def caller_step_def split: option.splits prod.splits)

lemma constructions_append [simp]:
  "constructions u (tr @ tr') = constructions u tr + constructions u tr'"
  by (simp add: constructions_def)

lemma constructions_Nil [simp]: "constructions u [] = 0"
  by (simp add: constructions_def)

lemma constructions_Cons [simp]:
  "constructions u (c # tr) = (if c = ConstructBackend u then 1 else 0) + constructions u tr"
  by (simp add: constructions_def)

lemma executeMount_constructions [simp]:
  "constructions u (snd (executeMount env tr cmd)) = constructions u tr"
  by (simp add: executeMount_def sys_def split: option.splits)

lemma mount_constructions [simp]:
  "constructions u (snd (mountCephFS env tr c1 mp)) = constructions u tr"
  "constructions u (snd (mountNFS env tr c2 mp)) = constructions u tr"
  "constructions u (snd (mountLustre env tr c3 mp)) = constructions u tr"
  by (simp_all add: mountCephFS_def mountNFS_def mountLustre_def sys_def Let_def
        split: option.splits)

lemma createPosixBackend_constructions [simp]:
  "constructions u (snd (createPosixBackend env tr config)) = constructions u tr"
  "constructions u (snd (createLustreEnhancedBackend env tr config lc)) = constructions u tr"
  by (simp_all add: createPosixBackend_def createLustreEnhancedBackend_def sys_def
        split: option.splits)


lemma mounted_backend_effect [simp]:
  "userBackends (snd (snd (createCephFSBackend env tr dm config))) = userBackends dm"
  "constructions u (fst (snd (createCephFSBackend env tr dm config))) = constructions u tr"
  "userBackends (snd (snd (createNFSBackend env tr dm config))) = userBackends dm"
  "constructions u (fst (snd (createNFSBackend env tr dm config))) = constructions u tr"
  "userBackends (snd (snd (createLustreBackend env tr dm config))) = userBackends dm"
  "constructions u (fst (snd (createLustreBackend env tr dm config))) = constructions u tr"
  by (simp_all add: createCephFSBackend_def createNFSBackend_def createLustreBackend_def
        mapToStruct_def Let_def case_prod_unfold split: option.splits)

lemma unmounted_backend_effect [simp]:
  "userBackends (snd (snd (createMinIOBackend env tr dm config))) = userBackends dm"
  "constructions u (fst (snd (createMinIOBackend env tr dm config))) = constructions u tr"
  "userBackends (snd (snd (createRustFSBackend env tr dm config))) = userBackends dm"
  "constructions u (fst (snd (createRustFSBackend env tr dm config))) = constructions u tr"
  by (simp_all add: createMinIOBackend_def createRustFSBackend_def mapToStruct_def Let_def
        sys_def case_prod_unfold split: option.splits)

lemma createBackendByType_effect [simp]:
  "userBackends (snd (snd (createBackendByType env tr dm config))) = userBackends dm"
  "constructions u (fst (snd (createBackendByType env tr dm config)))
     = constructions u tr + (if UserID config = u then 1 else 0)"
  by (simp_all add: createBackendByType_def Let_def case_prod_unfold)


lemma createDefaultUserConfig_backends [simp]:
  "userBackends (snd (createDefaultUserConfig dm u)) = userBackends dm"
  by (simp add: createDefaultUserConfig_def Let_def case_prod_unfold split: sum.splits)

lemma createUserBackend_hit:
  "userBackends dm u = Some b \<Longrightarrow> createUserBackend env tr dm u = (Returns (Inr b), tr, dm)"
  by (simp add: createUserBackend_def)

lemma createUserBackend_miss:
  assumes "userBackends dm u = None"
  shows "(\<forall>b. fst (createUserBackend env tr dm u) = Returns (Inr b) \<longrightarrow>
            userBackends (snd (snd (createUserBackend env tr dm u))) u = Some b
            \<and> constructions u (fst (snd (createUserBackend env tr dm u))) = constructions u tr + 1)
       \<and> (\<not> is_handle (fst (createUserBackend env tr dm u)) \<longrightarrow>
            userBackends (snd (snd (createUserBackend env tr dm u))) u = None
            \<and> constructions u tr \<le> constructions u (fst (snd (createUserBackend env tr dm u)))
            \<and> constructions u (fst (snd (createUserBackend env tr dm u))) \<le> constructions u tr + 1)"
  using assms
  by (auto simp: createUserBackend_def Let_def case_prod_unfold sys_def is_handle_def
        split: option.splits sum.splits)


lemma handle_ok_None: "handle_ok None st \<Longrightarrow> handle_ok h st"
  by (auto simp: handle_ok_def split: caller_state.splits outcome.splits sum.splits)

lemma updateLastAccessed_effect [simp]:
  "userBackends (snd (updateLastAccessed env tr dm u)) = userBackends dm"
  "constructions v (fst (updateLastAccessed env tr dm u)) = constructions v tr"
  by (simp_all add: updateLastAccessed_def sys_def case_prod_unfold split: option.splits)

text \<open>What one step of one caller does to the handle of the tenant and to the count.\<close>

lemma caller_step_effect:
  fixes env :: environment and tr :: "sys_call list"
  assumes ok: "handle_ok (userBackends dm u) st"
  defines "r \<equiv> caller_step env u st tr dm"
  shows "handle_ok (userBackends (snd (snd r)) u) (fst r)"
    and "userBackends dm u \<noteq> None \<Longrightarrow>
           userBackends (snd (snd r)) u = userBackends dm u
           \<and> constructions u (fst (snd r)) = constructions u tr \<and> failed (fst r) = failed st"
    and "userBackends dm u = None \<Longrightarrow>
           (userBackends (snd (snd r)) u = None
              \<and> constructions u (fst (snd r)) + failed st \<le> constructions u tr + failed (fst r)
              \<and> constructions u tr \<le> constructions u (fst (snd r))
              \<and> failed st \<le> failed (fst r))
         \<or> (userBackends (snd (snd r)) u \<noteq> None
              \<and> constructions u (fst (snd r)) = constructions u tr + 1
              \<and> failed (fst r) = failed st)"
proof -
  show "handle_ok (userBackends (snd (snd r)) u) (fst r)"
  proof (cases st)
    case AtLookup
    then show ?thesis
      by (simp add: r_def caller_step_def handle_ok_def split: option.splits)
  next
    case Missed
    show ?thesis
    proof (cases "userBackends dm u")
      case None
      show ?thesis
        using createUserBackend_miss [OF None, of env tr] Missed
        by (auto simp: r_def caller_step_def handle_ok_def case_prod_unfold Let_def is_handle_def
              split: outcome.splits sum.splits)
    next
      case (Some b)
      with Missed show ?thesis
        by (simp add: r_def caller_step_def createUserBackend_hit handle_ok_def)
    qed
  next
    case (Found b)
    with ok show ?thesis
      by (simp add: r_def caller_step_def handle_ok_def case_prod_unfold Let_def)
  next
    case (Done res)
    with ok show ?thesis by (simp add: r_def caller_step_def)
  qed
next
  assume some: "userBackends dm u \<noteq> None"
  then obtain b where b: "userBackends dm u = Some b" by auto
  show "userBackends (snd (snd r)) u = userBackends dm u
           \<and> constructions u (fst (snd r)) = constructions u tr \<and> failed (fst r) = failed st"
    using b
    by (cases st)
       (simp_all add: r_def caller_step_def createUserBackend_hit failed_def is_handle_def
          case_prod_unfold Let_def)
next
  assume none: "userBackends dm u = None"
  show "(userBackends (snd (snd r)) u = None
              \<and> constructions u (fst (snd r)) + failed st \<le> constructions u tr + failed (fst r)
              \<and> constructions u tr \<le> constructions u (fst (snd r))
              \<and> failed st \<le> failed (fst r))
         \<or> (userBackends (snd (snd r)) u \<noteq> None
              \<and> constructions u (fst (snd r)) = constructions u tr + 1
              \<and> failed (fst r) = failed st)"
  proof (cases st)
    case AtLookup
    with none show ?thesis by (simp add: r_def caller_step_def failed_def)
  next
    case Missed
    show ?thesis
    proof (cases "is_handle (fst (createUserBackend env tr dm u))")
      case True
      then obtain b where "fst (createUserBackend env tr dm u) = Returns (Inr b)"
        by (auto simp: is_handle_def split: outcome.splits sum.splits)
      with createUserBackend_miss [OF none, of env tr] Missed True show ?thesis
        by (simp add: r_def caller_step_def case_prod_unfold Let_def failed_def)
    next
      case False
      with createUserBackend_miss [OF none, of env tr] Missed show ?thesis
        by (simp add: r_def caller_step_def case_prod_unfold Let_def failed_def)
    qed
  next
    case (Found b)
    with ok none show ?thesis by (simp add: handle_ok_def)
  next
    case (Done res)
    with none show ?thesis by (simp add: r_def caller_step_def)
  qed
qed

lemma race_step_inv:
  assumes "race_inv u c0 cfg"
  shows "race_inv u c0 (race_step env u cfg who)"
proof -
  obtain st1 st2 tr dm where cfg: "cfg = (st1, st2, tr, dm)" by (cases cfg)
  from assms cfg have ok1: "handle_ok (userBackends dm u) st1"
    and ok2: "handle_ok (userBackends dm u) st2"
    and bound: "constructions u tr \<le> c0 + failed st1 + failed st2
              + (if userBackends dm u = None then 0 else 1)"
    and lower: "userBackends dm u \<noteq> None \<longrightarrow> c0 + 1 \<le> constructions u tr"
      "c0 \<le> constructions u tr"
    by (simp_all add: race_inv_def)
  show ?thesis
  proof (cases who)
    case True
    note e = caller_step_effect [OF ok1, of env tr]
    have other: "handle_ok (userBackends (snd (snd (caller_step env u st1 tr dm))) u) st2"
      using ok2 e(2) handle_ok_None by (cases "userBackends dm u = None") auto
    show ?thesis
    proof (cases "userBackends dm u = None")
      case True
      with e(1) e(3) other bound lower \<open>who\<close> cfg show ?thesis
        by (auto simp: race_inv_def race_step_def case_prod_unfold Let_def)
    next
      case False
      with e(1) e(2) other bound lower \<open>who\<close> cfg show ?thesis
        by (auto simp: race_inv_def race_step_def case_prod_unfold Let_def)
    qed
  next
    case False
    note e = caller_step_effect [OF ok2, of env tr]
    have other: "handle_ok (userBackends (snd (snd (caller_step env u st2 tr dm))) u) st1"
      using ok1 e(2) handle_ok_None by (cases "userBackends dm u = None") auto
    show ?thesis
    proof (cases "userBackends dm u = None")
      case True
      with e(1) e(3) other bound lower \<open>\<not> who\<close> cfg show ?thesis
        by (auto simp: race_inv_def race_step_def case_prod_unfold Let_def)
    next
      case nn: False
      with e(1) e(2) other bound lower \<open>\<not> who\<close> cfg show ?thesis
        by (auto simp: race_inv_def race_step_def case_prod_unfold Let_def)
    qed
  qed
qed

lemma race_inv_holds:
  "race_inv u c0 cfg \<Longrightarrow> race_inv u c0 (race env u sched cfg)"
  unfolding race_def
  by (induction sched arbitrary: cfg) (simp_all add: race_step_inv)


lemma caller_step_rank:
  "rank (fst (caller_step env u st tr dm)) = min 2 (rank st + 1)"
  by (cases st)
     (simp_all add: caller_step_def rank_def case_prod_unfold Let_def split: option.splits)

lemma race_rank:
  "rank (fst (race env u sched (st1, st2, tr, dm))) = min 2 (rank st1 + length (filter id sched))
   \<and> rank (fst (snd (race env u sched (st1, st2, tr, dm))))
       = min 2 (rank st2 + length (filter Not sched))"
  unfolding race_def
proof (induction sched arbitrary: st1 st2 tr dm)
  case Nil
  show ?case by (cases st1; cases st2) (simp_all add: rank_def)
next
  case (Cons who sched)
  show ?case
  proof (cases who)
    case True
    obtain st1' tr' dm' where step: "caller_step env u st1 tr dm = (st1', tr', dm')"
      by (cases "caller_step env u st1 tr dm")
    then have "rank st1' = min 2 (rank st1 + 1)"
      using caller_step_rank [of env u st1 tr dm] by simp
    with Cons.IH [of st1' st2 tr' dm'] True step show ?thesis
      by (simp add: race_step_def min_def)
  next
    case False
    obtain st2' tr' dm' where step: "caller_step env u st2 tr dm = (st2', tr', dm')"
      by (cases "caller_step env u st2 tr dm")
    then have "rank st2' = min 2 (rank st2 + 1)"
      using caller_step_rank [of env u st2 tr dm] by simp
    with Cons.IH [of st1 st2' tr' dm'] False step show ?thesis
      by (simp add: race_step_def min_def)
  qed
qed

lemma rank_2_Done: "rank st = 2 \<Longrightarrow> \<exists>r. st = Done r"
  by (cases st) (simp_all add: rank_def)

text \<open>
  C9 (as amended).  When two callers request the backend of a tenant that has none, in
  any interleaving of their locked sections: once each has taken its two steps both have
  returned; every handle a caller receives is the handle stored in the registry; when both
  receive a handle it is the same handle and exactly one construction sequence ran; and
  the number of construction sequences is at most one more than the number of callers
  that returned an error.
\<close>

theorem GetUserBackend_race_one_success:
  assumes none: "userBackends dm userID = None"
    and run: "race env userID sched (AtLookup, AtLookup, tr, dm) = (st1, st2, tr', dm')"
  shows "(2 \<le> length (filter id sched) \<and> 2 \<le> length (filter Not sched)
            \<longrightarrow> (\<exists>r1 r2. st1 = Done r1 \<and> st2 = Done r2))
     \<and> (\<forall>b. st1 = Done (Returns (Inr b)) \<or> st2 = Done (Returns (Inr b))
            \<longrightarrow> userBackends dm' userID = Some b)
     \<and> (\<forall>b1 b2. st1 = Done (Returns (Inr b1)) \<and> st2 = Done (Returns (Inr b2))
            \<longrightarrow> b1 = b2 \<and> constructions userID tr' = constructions userID tr + 1)
     \<and> constructions userID tr' \<le> constructions userID tr + failed st1 + failed st2 + 1"
proof -
  have "race_inv userID (constructions userID tr) (AtLookup, AtLookup, tr, dm)"
    using none by (simp add: race_inv_def handle_ok_def failed_def)
  then have "race_inv userID (constructions userID tr) (st1, st2, tr', dm')"
    using race_inv_holds [of userID "constructions userID tr" "(AtLookup, AtLookup, tr, dm)" env sched]
      run by simp
  then have ok1: "handle_ok (userBackends dm' userID) st1"
    and ok2: "handle_ok (userBackends dm' userID) st2"
    and bound: "constructions userID tr' \<le> constructions userID tr + failed st1 + failed st2
              + (if userBackends dm' userID = None then 0 else 1)"
    and lower: "userBackends dm' userID \<noteq> None
              \<longrightarrow> constructions userID tr + 1 \<le> constructions userID tr'"
    by (simp_all add: race_inv_def)
  have finish: "2 \<le> length (filter id sched) \<and> 2 \<le> length (filter Not sched)
            \<longrightarrow> (\<exists>r1 r2. st1 = Done r1 \<and> st2 = Done r2)"
  proof
    assume "2 \<le> length (filter id sched) \<and> 2 \<le> length (filter Not sched)"
    with race_rank [of env userID sched AtLookup AtLookup tr dm] run
    have "rank st1 = 2" "rank st2 = 2" by (simp_all add: rank_def)
    then show "\<exists>r1 r2. st1 = Done r1 \<and> st2 = Done r2"
      using rank_2_Done by blast
  qed
  have stored: "\<forall>b. st1 = Done (Returns (Inr b)) \<or> st2 = Done (Returns (Inr b))
            \<longrightarrow> userBackends dm' userID = Some b"
    using ok1 ok2 by (auto simp: handle_ok_def)
  have same: "\<forall>b1 b2. st1 = Done (Returns (Inr b1)) \<and> st2 = Done (Returns (Inr b2))
            \<longrightarrow> b1 = b2 \<and> constructions userID tr' = constructions userID tr + 1"
  proof (intro allI impI)
    fix b1 b2 assume h: "st1 = Done (Returns (Inr b1)) \<and> st2 = Done (Returns (Inr b2))"
    with stored have s: "userBackends dm' userID = Some b1" "userBackends dm' userID = Some b2"
      by blast+
    from h have "failed st1 = 0" "failed st2 = 0" by (simp_all add: failed_def is_handle_def)
    with bound lower s show "b1 = b2 \<and> constructions userID tr' = constructions userID tr + 1"
      by simp
  qed
  have "constructions userID tr' \<le> constructions userID tr + failed st1 + failed st2 + 1"
    using bound by (simp split: if_splits)
  with finish stored same show ?thesis by (intro conjI)
qed

lemmas race_eval =
  race_def race_step_def caller_step_def createUserBackend_def GetUserStorageConfig_def
  createBackendByType_def createPosixBackend_def createCephFSBackend_def mountCephFS_def
  executeMount_def mapToStruct_def zero_CephFSConfig_def updateLastAccessed_def
  sys_def set_status_def NewDynamicBackendManager_def example_mt_def Let_def

lemma posix_race:
  "fst (race calm_env ''alice'' [True, False, True, False] (AtLookup, AtLookup, [], posix_example))
     = Done (Returns (Inr (PosixBackend 4 ''/mnt/alice'')))
   \<and> fst (snd (race calm_env ''alice'' [True, False, True, False]
                  (AtLookup, AtLookup, [], posix_example)))
     = Done (Returns (Inr (PosixBackend 4 ''/mnt/alice'')))
   \<and> fst (snd (snd (race calm_env ''alice'' [True, False, True, False]
                  (AtLookup, AtLookup, [], posix_example))))
     = [TimeNow, TimeNow, ConstructBackend ''alice'', MkdirAll ''/mnt/alice'',
        PosixNew ''/mnt/alice'']"
  by (simp add: race_eval posix_example_def calm_env_def)


theorem GetUserBackend_race_one_success_witness:
  "fst (race calm_env ''alice'' [True, False, True, False] (AtLookup, AtLookup, [], posix_example))
     = Done (Returns (Inr (PosixBackend 4 ''/mnt/alice'')))
   \<and> fst (snd (race calm_env ''alice'' [True, False, True, False]
                  (AtLookup, AtLookup, [], posix_example)))
     = Done (Returns (Inr (PosixBackend 4 ''/mnt/alice'')))
   \<and> userBackends (snd (snd (snd (race calm_env ''alice'' [True, False, True, False]
                  (AtLookup, AtLookup, [], posix_example))))) ''alice''
     = Some (PosixBackend 4 ''/mnt/alice'')
   \<and> constructions ''alice'' (fst (snd (snd (race calm_env ''alice'' [True, False, True, False]
                  (AtLookup, AtLookup, [], posix_example))))) = 1"
proof -
  define R where "R = race calm_env ''alice'' [True, False, True, False]
                  (AtLookup, AtLookup, [], posix_example)"
  have none: "userBackends posix_example ''alice'' = None"
    by (simp add: posix_example_def NewDynamicBackendManager_def)
  have run: "race calm_env ''alice'' [True, False, True, False]
                  (AtLookup, AtLookup, [], posix_example)
               = (fst R, fst (snd R), fst (snd (snd R)), snd (snd (snd R)))"
    by (simp add: R_def)
  note t = GetUserBackend_race_one_success [OF none run]
  have st: "fst R = Done (Returns (Inr (PosixBackend 4 ''/mnt/alice'')))"
      "fst (snd R) = Done (Returns (Inr (PosixBackend 4 ''/mnt/alice'')))"
    using posix_race by (simp_all add: R_def)
  have "userBackends (snd (snd (snd R))) ''alice'' = Some (PosixBackend 4 ''/mnt/alice'')"
    using t st by blast
  moreover have "constructions ''alice'' (fst (snd (snd R))) = 1"
    using t st by simp
  ultimately show ?thesis using st by (simp add: R_def)
qed

text \<open>
  C9 as stated fails: a failed construction leaves no record, so the second caller
  constructs again.  With a mount that fails the first time and succeeds the second, two
  construction sequences run, and one caller receives an error while the other receives a
  handle.
\<close>

theorem GetUserBackend_race_counterexample:
  "userBackends cephfs_example ''alice'' = None
   \<and> fst (race flaky_env ''alice'' [True, False, True, False]
            (AtLookup, AtLookup, [], cephfs_example))
     = Done (Returns (Inl (Errorf ''failed to create backend for user alice: ''
          (Errorf ''failed to mount CephFS: ''
            (Errorf ''mount failed: : '' (ExternalError ''exit status 32''))))))
   \<and> fst (snd (race flaky_env ''alice'' [True, False, True, False]
            (AtLookup, AtLookup, [], cephfs_example)))
     = Done (Returns (Inr (PosixBackend 11 ''/mnt/alice'')))
   \<and> constructions ''alice'' (fst (snd (snd (race flaky_env ''alice'' [True, False, True, False]
            (AtLookup, AtLookup, [], cephfs_example))))) = 2"
  by (simp add: race_eval cephfs_example_def flaky_env_def is_command_def constructions_def)


end
